theory Spec2Isabelle
  imports Main
begin

section \<open>The release script \<^verbatim>\<open>update.py\<close>\<close>

text \<open>
  The script reads the version of an Arduino library from \<^verbatim>\<open>library.properties\<close>,
  bumps it, writes it back, commits and pushes to two git remotes and creates a GitHub
  release. Each function of the script is embedded below under its own name; the Python
  built-ins it calls (\<^verbatim>\<open>str.split\<close>, \<^verbatim>\<open>int\<close>, \<^verbatim>\<open>str\<close>, \<^verbatim>\<open>str.strip\<close>,
  \<^verbatim>\<open>re.search\<close>, \<^verbatim>\<open>re.sub\<close>, \<^verbatim>\<open>open\<close>, \<^verbatim>\<open>input\<close>, \<^verbatim>\<open>subprocess.run\<close>) are
  embedded as CPython defines them.

  A Python \<^verbatim>\<open>str\<close> is a \<^typ>\<open>string\<close>; a \<^typ>\<open>char\<close> stands for a code point below 256.
  Python's integers are unbounded, so they are \<^typ>\<open>int\<close>; the limit that the interpreter
  puts on the number of digits of a conversion between \<^verbatim>\<open>str\<close> and \<^verbatim>\<open>int\<close> is part of
  the model.
\<close>

subsection \<open>Characters and strings\<close>

text \<open>
  \<^verbatim>\<open>str.isspace\<close>, which is also the class \<^verbatim>\<open>\s\<close> of a \<^verbatim>\<open>str\<close> pattern and the set
  that \<^verbatim>\<open>str.strip()\<close> removes: below 256 these are the code points 9 to 13, 28 to 32,
  0x85 and 0xA0.
\<close>

definition isspace :: "char \<Rightarrow> bool" where
  "isspace c =
     (let n = (of_char c :: nat)
      in (9 \<le> n \<and> n \<le> 13) \<or> (28 \<le> n \<and> n \<le> 32) \<or> n = 133 \<or> n = 160)"

text \<open>
  The white space that \<^verbatim>\<open>int()\<close> skips around a literal: as above without the four
  separators 28 to 31 (\<^verbatim>\<open>int('\x1c1')\<close> raises \<^verbatim>\<open>ValueError\<close>).
\<close>

definition int_space :: "char \<Rightarrow> bool" where
  "int_space c =
     (let n = (of_char c :: nat)
      in (9 \<le> n \<and> n \<le> 13) \<or> n = 32 \<or> n = 133 \<or> n = 160)"

definition strip_with :: "(char \<Rightarrow> bool) \<Rightarrow> string \<Rightarrow> string" where
  "strip_with sp s = rev (dropWhile sp (rev (dropWhile sp s)))"

definition strip :: "string \<Rightarrow> string" where
  "strip s = strip_with isspace s"

text \<open>\<^verbatim>\<open>str.lower\<close>: below 256 the letters A to Z and 0xC0 to 0xDE (without 0xD7) move up by 32.\<close>

definition lower_char :: "char \<Rightarrow> char" where
  "lower_char c =
     (let n = (of_char c :: nat)
      in if (65 \<le> n \<and> n \<le> 90) \<or> (192 \<le> n \<and> n \<le> 222 \<and> n \<noteq> 215)
         then char_of (n + 32) else c)"

definition lower :: "string \<Rightarrow> string" where
  "lower s = map lower_char s"

definition startswith :: "string \<Rightarrow> string \<Rightarrow> bool" where
  "startswith s p = (take (length p) s = p)"

text \<open>\<^verbatim>\<open>s.split(d)\<close> for a one-character separator: the scan keeps the piece read so far.\<close>

fun split_from :: "char \<Rightarrow> string \<Rightarrow> string \<Rightarrow> string list" where
  "split_from d cur [] = [cur]"
| "split_from d cur (c # cs) =
     (if c = d then cur # split_from d [] cs else split_from d (cur @ [c]) cs)"

definition split :: "string \<Rightarrow> char \<Rightarrow> string list" where
  "split s d = split_from d [] s"

text \<open>\<^verbatim>\<open>sep.join(parts)\<close>.\<close>

fun join :: "string \<Rightarrow> string list \<Rightarrow> string" where
  "join sep [] = []"
| "join sep [p] = p"
| "join sep (p # q # ps) = p @ sep @ join sep (q # ps)"

subsection \<open>\<^verbatim>\<open>int(str)\<close> and \<^verbatim>\<open>str(int)\<close>\<close>

text \<open>
  CPython (3.11 and later) refuses a conversion between \<^verbatim>\<open>str\<close> and \<^verbatim>\<open>int\<close> in base 10
  that has more than \<^verbatim>\<open>sys.int_max_str_digits\<close> digits, with \<^verbatim>\<open>ValueError\<close>. The script
  leaves the limit at its default of 4300.
\<close>

definition int_max_str_digits :: nat where
  "int_max_str_digits = 4300"

definition is_digit :: "char \<Rightarrow> bool" where
  "is_digit c = (let n = (of_char c :: nat) in 48 \<le> n \<and> n \<le> 57)"

definition digit_val :: "char \<Rightarrow> nat" where
  "digit_val c = of_char c - 48"

text \<open>
  The digits of a decimal literal, read after a first digit: a single underscore may
  stand between two digits, nothing else may.
\<close>

fun parse_digits :: "nat \<Rightarrow> string \<Rightarrow> nat option" where
  "parse_digits acc [] = Some acc"
| "parse_digits acc (c # cs) =
     (if is_digit c then parse_digits (acc * 10 + digit_val c) cs
      else if c = CHR ''_'' then
        (case cs of
           [] \<Rightarrow> None
         | d # ds \<Rightarrow> if is_digit d then parse_digits (acc * 10 + digit_val d) ds else None)
      else None)"

text \<open>The value of a string of digits, continuing from \<open>acc\<close>.\<close>

definition dec_val :: "nat \<Rightarrow> string \<Rightarrow> nat" where
  "dec_val acc s = foldl (\<lambda>a c. a * 10 + digit_val c) acc s"

text \<open>
  A decimal literal without sign. Its digits are counted as \<^verbatim>\<open>int()\<close> counts them for the
  limit: leading zeros count, underscores do not.
\<close>

definition parse_nat :: "string \<Rightarrow> nat option" where
  "parse_nat s =
     (case s of
        [] \<Rightarrow> None
      | c # cs \<Rightarrow>
          if is_digit c \<and> length (filter is_digit s) \<le> int_max_str_digits
          then parse_digits (digit_val c) cs else None)"

text \<open>
  \<^verbatim>\<open>int(s)\<close>: white space around, one optional sign, then the digits. \<open>None\<close> is
  \<^verbatim>\<open>ValueError\<close>.
\<close>

definition py_int :: "string \<Rightarrow> int option" where
  "py_int s =
     (case strip_with int_space s of
        [] \<Rightarrow> None
      | c # cs \<Rightarrow>
          if c = CHR ''-'' then map_option (\<lambda>n. - int n) (parse_nat cs)
          else if c = CHR ''+'' then map_option int (parse_nat cs)
          else map_option int (parse_nat (c # cs)))"

fun nat_str :: "nat \<Rightarrow> string" where
  "nat_str n =
     (if n < 10 then [char_of (48 + n)]
      else nat_str (n div 10) @ [char_of (48 + n mod 10)])"

declare nat_str.simps [simp del]

text \<open>
  \<^verbatim>\<open>str(i)\<close>: the decimal digits of \<open>i\<close>, after a minus sign when \<open>i\<close> is negative. \<open>None\<close> is
  \<^verbatim>\<open>ValueError\<close>: there are more digits than the limit allows (the sign does not count).
\<close>

definition py_str :: "int \<Rightarrow> string option" where
  "py_str i =
     (let digits = nat_str (nat \<bar>i\<bar>)
      in if int_max_str_digits < length digits then None
         else Some (if i < 0 then CHR ''-'' # digits else digits))"

subsection \<open>Exceptions\<close>

text \<open>
  The exceptions the script can meet. \<open>SystemExit\<close> is what \<^verbatim>\<open>sys.exit\<close> raises; it is
  a \<^verbatim>\<open>BaseException\<close> but not an \<^verbatim>\<open>Exception\<close>, so an \<^verbatim>\<open>except Exception\<close> clause
  lets it pass. \<open>ReError\<close> stands for what the template compiler of \<^verbatim>\<open>re.sub\<close> raises
  (\<^verbatim>\<open>re.error\<close>, or \<^verbatim>\<open>IndexError\<close> for an unknown group name), \<open>OSError\<close> for an
  exception of \<^verbatim>\<open>subprocess.run\<close> itself.
\<close>

datatype exc = SystemExit int | ValueError | EOFError | ReError | OSError

fun is_Exception :: "exc \<Rightarrow> bool" where
  "is_Exception (SystemExit n) = False"
| "is_Exception e = True"

subsection \<open>\<^verbatim>\<open>bump_version\<close>\<close>

definition bump_version :: "string \<Rightarrow> string \<Rightarrow> exc + string" where
  "bump_version version bump_type =
     (let parts0 = split version (CHR ''.'');
          parts = (if length parts0 < 3
                   then parts0 @ replicate (3 - length parts0) ''0'' else parts0)
      in if bump_type = ''major'' then
           (case py_int (parts ! 0) of
              None \<Rightarrow> Inl ValueError
            | Some n \<Rightarrow>
                (case py_str (n + 1) of
                   None \<Rightarrow> Inl ValueError
                 | Some t \<Rightarrow> Inr (join ''.'' (parts[0 := t, 1 := ''0'', 2 := ''0'']))))
         else if bump_type = ''minor'' then
           (case py_int (parts ! 1) of
              None \<Rightarrow> Inl ValueError
            | Some n \<Rightarrow>
                (case py_str (n + 1) of
                   None \<Rightarrow> Inl ValueError
                 | Some t \<Rightarrow> Inr (join ''.'' (parts[1 := t, 2 := ''0'']))))
         else
           (case py_int (parts ! 2) of
              None \<Rightarrow> Inl ValueError
            | Some n \<Rightarrow>
                (case py_str (n + 1) of
                   None \<Rightarrow> Inl ValueError
                 | Some t \<Rightarrow> Inr (join ''.'' (parts[2 := t])))))"

text \<open>
  The version triple of the specification's data model: the components of
  \<^verbatim>\<open>X.Y.Z\<close> read as integers, a missing trailing component being 0. It is defined from
  the specification's words; \<open>bump_version\<close> itself works on the strings.
\<close>

definition version_triple :: "string \<Rightarrow> (int \<times> int \<times> int) option" where
  "version_triple v =
     (let parts0 = split v (CHR ''.'');
          parts = parts0 @ replicate (3 - length parts0) ''0''
      in case map py_int parts of
           [Some a, Some b, Some c] \<Rightarrow> Some (a, b, c)
         | _ \<Rightarrow> None)"

subsection \<open>The state of a run\<close>

text \<open>
  What \<^verbatim>\<open>subprocess.run\<close> gives for one command: a completed process with its return
  code and its two captured streams, or an exception of \<^verbatim>\<open>subprocess.run\<close> itself.
\<close>

datatype proc =
  CompletedProcess (returncode: int) (stdout: string) (stderr: string)
| Raised

text \<open>
  What a run does to the outside, in order: the commands it issues with what they gave,
  and the lines it reads from the console with the prompt shown.
\<close>

datatype event = Ran string proc | Asked string string

text \<open>
  \<open>world\<close> is whatever the external commands act on; \<open>props_file\<close> is the content of
  \<^verbatim>\<open>library.properties\<close> on disk (\<open>None\<close> when the file does not exist);
  \<open>inputs\<close> are the lines that the console still holds. Only the script writes the file:
  as it assumes itself, no command and no other process changes it during a run.
\<close>

record 'w state =
  world :: 'w
  props_file :: "string option"
  inputs :: "string list"
  trace :: "event list"

text \<open>A Python computation: it returns or raises, and leaves a state either way.\<close>

type_synonym ('w, 'a) py = "'w state \<Rightarrow> (exc + 'a) \<times> 'w state"

text \<open>The external world: what a command gives in a world, and the world after it.\<close>

type_synonym 'w shell = "'w \<Rightarrow> string \<Rightarrow> proc \<times> 'w"

definition py_return :: "'a \<Rightarrow> ('w, 'a) py" where
  "py_return x s = (Inr x, s)"

definition py_raise :: "exc \<Rightarrow> ('w, 'a) py" where
  "py_raise e s = (Inl e, s)"

definition py_bind :: "('w, 'a) py \<Rightarrow> ('a \<Rightarrow> ('w, 'b) py) \<Rightarrow> ('w, 'b) py" where
  "py_bind m f s = (case m s of (Inl e, s') \<Rightarrow> (Inl e, s') | (Inr x, s') \<Rightarrow> f x s')"

text \<open>\<^verbatim>\<open>try: body except Exception: handler\<close>: \<open>SystemExit\<close> is not caught.\<close>

definition try_except_Exception :: "('w, 'a) py \<Rightarrow> ('w, 'a) py \<Rightarrow> ('w, 'a) py" where
  "try_except_Exception body handler s =
     (case body s of
        (Inl e, s') \<Rightarrow> if is_Exception e then handler s' else (Inl e, s')
      | (Inr x, s') \<Rightarrow> (Inr x, s'))"

text \<open>\<^verbatim>\<open>try: body except: handler\<close>: the bare clause catches everything.\<close>

definition try_except :: "('w, 'a) py \<Rightarrow> ('w, 'a) py \<Rightarrow> ('w, 'a) py" where
  "try_except body handler s =
     (case body s of
        (Inl e, s') \<Rightarrow> handler s'
      | (Inr x, s') \<Rightarrow> (Inr x, s'))"

text \<open>\<^verbatim>\<open>input(prompt)\<close>: the next line of the console, \<^verbatim>\<open>EOFError\<close> when there is none.\<close>

definition input :: "string \<Rightarrow> ('w, string) py" where
  "input prompt s =
     (case inputs s of
        [] \<Rightarrow> (Inl EOFError, s)
      | l # ls \<Rightarrow> (Inr l, s\<lparr>inputs := ls, trace := trace s @ [Asked prompt l]\<rparr>))"

text \<open>
  The exit status of the process, from what \<^verbatim>\<open>main\<close> returned or raised: an uncaught
  exception other than \<open>SystemExit\<close> prints its traceback and gives status 1.
\<close>

fun exit_code :: "exc + 'a \<Rightarrow> int" where
  "exit_code (Inr x) = 0"
| "exit_code (Inl (SystemExit n)) = n"
| "exit_code (Inl e) = 1"

subsection \<open>\<^verbatim>\<open>get_yes_no\<close>\<close>

definition get_yes_no :: "string \<Rightarrow> bool \<Rightarrow> ('w, bool) py" where
  "get_yes_no prompt dflt =
     (let default_str = (if dflt then ''Y/n'' else ''y/N'')
      in py_bind (input (prompt @ '' ['' @ default_str @ '']: '')) (\<lambda>line.
           let response = lower (strip line)
           in if response = '''' then py_return dflt
              else py_return (startswith response ''y'')))"

subsection \<open>The pattern \<^verbatim>\<open>version=[^\s\n\r]+\<close>\<close>

text \<open>A character of the class \<^verbatim>\<open>[^\s\n\r]\<close>.\<close>

definition token_char :: "char \<Rightarrow> bool" where
  "token_char c = (\<not> isspace c \<and> c \<noteq> CHR 0x0A \<and> c \<noteq> CHR 0x0D)"

text \<open>
  A match of the pattern at the start of a text: the eight characters \<^verbatim>\<open>version=\<close> and
  then the longest run of class characters, which must not be empty. The result is that
  run (group 1 of the pattern that \<^verbatim>\<open>get_current_version\<close> uses) and the text after the
  match.
\<close>

definition match_version :: "string \<Rightarrow> (string \<times> string) option" where
  "match_version s =
     (if take 8 s = ''version='' \<and> takeWhile token_char (drop 8 s) \<noteq> []
      then Some (takeWhile token_char (drop 8 s), dropWhile token_char (drop 8 s))
      else None)"

text \<open>\<^verbatim>\<open>re.search\<close>: group 1 of the leftmost match.\<close>

fun re_search_version :: "string \<Rightarrow> string option" where
  "re_search_version [] = None"
| "re_search_version (c # cs) =
     (case match_version (c # cs) of
        Some (tok, rest) \<Rightarrow> Some tok
      | None \<Rightarrow> re_search_version cs)"

text \<open>
  The scan of \<^verbatim>\<open>re.sub\<close>: every match, from left to right and without overlap, is
  replaced by what \<open>repl\<close> gives for the matched text; all other characters are copied.
\<close>

function re_sub_scan :: "(string \<Rightarrow> string) \<Rightarrow> string \<Rightarrow> string" where
  "re_sub_scan repl [] = []"
| "re_sub_scan repl (c # cs) =
     (case match_version (c # cs) of
        Some (tok, rest) \<Rightarrow> repl (''version='' @ tok) @ re_sub_scan repl rest
      | None \<Rightarrow> c # re_sub_scan repl cs)"
  by pat_completeness auto

lemma match_version_shorter: "match_version s = Some (tok, rest) \<Longrightarrow> length rest < length s"
proof -
  assume m: "match_version s = Some (tok, rest)"
  then have r: "rest = dropWhile token_char (drop 8 s)" and t: "take 8 s = ''version=''"
    by (auto simp: match_version_def split: if_splits)
  from t have "length (take 8 s) = length ''version=''" by (simp only:)
  then have "8 \<le> length s" by simp
  have "length rest \<le> length (drop 8 s)" unfolding r by (rule length_dropWhile_le)
  with \<open>8 \<le> length s\<close> show ?thesis by simp
qed

termination re_sub_scan
  by (relation "measure (\<lambda>(repl, s). length s)") (auto dest: match_version_shorter)


subsection \<open>The replacement template of \<^verbatim>\<open>re.sub\<close>\<close>

text \<open>
  \<^verbatim>\<open>re.sub\<close> compiles its replacement string before it scans: backslash escapes are
  processed and group references resolved (CPython 3.12, \<^verbatim>\<open>re._parser.parse_template\<close>).
  A compiled template is a list of pieces: literal text, or the whole match (group 0,
  the only group of this pattern).
\<close>

datatype piece = Chars string | Match

definition is_octdigit :: "char \<Rightarrow> bool" where
  "is_octdigit c = (let n = (of_char c :: nat) in 48 \<le> n \<and> n \<le> 55)"

definition is_ascii_letter :: "char \<Rightarrow> bool" where
  "is_ascii_letter c =
     (let n = (of_char c :: nat) in (65 \<le> n \<and> n \<le> 90) \<or> (97 \<le> n \<and> n \<le> 122))"

definition oct_val :: "string \<Rightarrow> nat" where
  "oct_val s = foldl (\<lambda>a c. a * 8 + digit_val c) 0 s"

definition then_pieces :: "piece \<Rightarrow> exc + piece list \<Rightarrow> exc + piece list" where
  "then_pieces p r = (case r of Inl e \<Rightarrow> Inl e | Inr ps \<Rightarrow> Inr (p # ps))"

text \<open>The escapes that stand for one character: \<^verbatim>\<open>\a \b \f \n \r \t \v \\\<close>.\<close>

definition escape_char :: "char \<Rightarrow> char option" where
  "escape_char c =
     (if c = CHR ''a'' then Some (CHR 0x07)
      else if c = CHR ''b'' then Some (CHR 0x08)
      else if c = CHR ''f'' then Some (CHR 0x0C)
      else if c = CHR ''n'' then Some (CHR 0x0A)
      else if c = CHR ''r'' then Some (CHR 0x0D)
      else if c = CHR ''t'' then Some (CHR 0x09)
      else if c = CHR ''v'' then Some (CHR 0x0B)
      else if c = CHR 0x5C then Some (CHR 0x5C)
      else None)"

function parse_template :: "string \<Rightarrow> exc + piece list" where
  "parse_template [] = Inr []"
| "parse_template (c # cs) =
     (if c \<noteq> CHR 0x5C then then_pieces (Chars [c]) (parse_template cs)
      else
        (case cs of
           [] \<Rightarrow> Inl ReError
         | e # r \<Rightarrow>
             if e = CHR ''g'' then
               (case r of
                  [] \<Rightarrow> Inl ReError
                | a # r2 \<Rightarrow>
                    if a \<noteq> CHR ''<'' then Inl ReError
                    else
                      (case dropWhile (\<lambda>x. x \<noteq> CHR ''>'') r2 of
                         [] \<Rightarrow> Inl ReError
                       | gt # r3 \<Rightarrow>
                           (let name = takeWhile (\<lambda>x. x \<noteq> CHR ''>'') r2
                            in if name \<noteq> [] \<and> list_all is_digit name \<and> dec_val 0 name = 0
                               then then_pieces Match (parse_template r3)
                               else Inl ReError)))
             else if e = CHR ''0'' then
               (let ds = takeWhile is_octdigit (take 2 r)
                in then_pieces (Chars [char_of (oct_val ds)])
                     (parse_template (drop (length ds) r)))
             else if is_digit e then
               (case r of
                  d2 # d3 # r3 \<Rightarrow>
                    if is_octdigit e \<and> is_octdigit d2 \<and> is_octdigit d3
                       \<and> oct_val [e, d2, d3] \<le> 255
                    then then_pieces (Chars [char_of (oct_val [e, d2, d3])]) (parse_template r3)
                    else Inl ReError
                | _ \<Rightarrow> Inl ReError)
             else
               (case escape_char e of
                  Some x \<Rightarrow> then_pieces (Chars [x]) (parse_template r)
                | None \<Rightarrow>
                    if is_ascii_letter e then Inl ReError
                    else then_pieces (Chars [c, e]) (parse_template r))))"
  by pat_completeness auto

lemma dropWhile_shorter: "dropWhile P xs = y # ys \<Longrightarrow> length ys < length xs"
  using length_dropWhile_le [of P xs] by simp

termination parse_template
  by (relation "measure length") (auto dest: dropWhile_shorter)

definition expand_template :: "piece list \<Rightarrow> string \<Rightarrow> string" where
  "expand_template ps m = concat (map (\<lambda>p. case p of Chars s \<Rightarrow> s | Match \<Rightarrow> m) ps)"

text \<open>\<^verbatim>\<open>re.sub(r'version=[^\s\n\r]+', repl, content)\<close>.\<close>

definition re_sub_version :: "string \<Rightarrow> string \<Rightarrow> exc + string" where
  "re_sub_version repl content =
     (case parse_template repl of
        Inl e \<Rightarrow> Inl e
      | Inr ps \<Rightarrow> Inr (re_sub_scan (expand_template ps) content))"

subsection \<open>Reading and writing \<^verbatim>\<open>library.properties\<close>\<close>

text \<open>
  The script opens the file in text mode. Reading translates every line ending
  (\<^verbatim>\<open>\r\n\<close>, \<^verbatim>\<open>\r\<close> or \<^verbatim>\<open>\n\<close>) into \<^verbatim>\<open>\n\<close>; writing translates \<^verbatim>\<open>\n\<close> into the line
  separator of the platform (\<^verbatim>\<open>os.linesep\<close>: \<^verbatim>\<open>\n\<close> on POSIX, \<^verbatim>\<open>\r\n\<close> on Windows),
  which is a parameter here. Decoding and encoding are not modelled: the file is its
  sequence of characters.
\<close>

fun universal_newlines :: "string \<Rightarrow> string" where
  "universal_newlines [] = []"
| "universal_newlines [c] = (if c = CHR 0x0D then [CHR 0x0A] else [c])"
| "universal_newlines (c # d # cs) =
     (if c = CHR 0x0D then
        (if d = CHR 0x0A then CHR 0x0A # universal_newlines cs
         else CHR 0x0A # universal_newlines (d # cs))
      else c # universal_newlines (d # cs))"

definition write_newlines :: "string \<Rightarrow> string \<Rightarrow> string" where
  "write_newlines linesep text =
     concat (map (\<lambda>c. if c = CHR 0x0A then linesep else [c]) text)"

subsection \<open>\<^verbatim>\<open>get_current_version\<close>\<close>

definition get_current_version :: "('w, string) py" where
  "get_current_version s =
     (case props_file s of
        None \<Rightarrow> (Inl (SystemExit 1), s)
      | Some disk \<Rightarrow>
          (case re_search_version (universal_newlines disk) of
             Some tok \<Rightarrow> (Inr tok, s)
           | None \<Rightarrow> (Inl (SystemExit 1), s)))"

subsection \<open>\<^verbatim>\<open>update_version_in_library_properties\<close>\<close>

definition update_version_in_library_properties :: "string \<Rightarrow> string \<Rightarrow> ('w, bool) py" where
  "update_version_in_library_properties linesep new_version s =
     (case props_file s of
        None \<Rightarrow> (Inr False, s)
      | Some disk \<Rightarrow>
          (let content = universal_newlines disk
           in case re_sub_version (''version='' @ new_version) content of
                Inl e \<Rightarrow> (Inl e, s)
              | Inr new_content \<Rightarrow>
                  if new_content \<noteq> content
                  then (Inr True, s\<lparr>props_file := Some (write_newlines linesep new_content)\<rparr>)
                  else (Inr False, s)))"

text \<open>
  The tokens of all matches of the pattern in a text, found as the scan of \<^verbatim>\<open>re.sub\<close>
  finds them (\<^verbatim>\<open>re.findall\<close>). A text has exactly one \<^verbatim>\<open>version=\<close> assignment in the
  sense of the script when this list has one element.
\<close>

function re_findall_version :: "string \<Rightarrow> string list" where
  "re_findall_version [] = []"
| "re_findall_version (c # cs) =
     (case match_version (c # cs) of
        Some (tok, rest) \<Rightarrow> tok # re_findall_version rest
      | None \<Rightarrow> re_findall_version cs)"
  by pat_completeness auto

termination re_findall_version
  by (relation "measure length") (auto dest: match_version_shorter)

subsection \<open>\<^verbatim>\<open>run_command\<close>\<close>

text \<open>
  The command runs in the external world and is recorded in the trace. With \<open>check\<close>, a
  return code other than 0 ends in \<^verbatim>\<open>sys.exit(1)\<close>; otherwise the result is the stripped
  standard output. An exception of \<^verbatim>\<open>subprocess.run\<close> itself is passed on.
\<close>

definition run_command :: "'w shell \<Rightarrow> string \<Rightarrow> bool \<Rightarrow> ('w, string) py" where
  "run_command sh cmd check s =
     (case sh (world s) cmd of
        (Raised, w) \<Rightarrow> (Inl OSError, s\<lparr>world := w, trace := trace s @ [Ran cmd Raised]\<rparr>)
      | (CompletedProcess rc out err, w) \<Rightarrow>
          (let s' = s\<lparr>world := w, trace := trace s @ [Ran cmd (CompletedProcess rc out err)]\<rparr>
           in if check \<and> rc \<noteq> 0 then (Inl (SystemExit 1), s') else (Inr (strip out), s')))"

text \<open>\<^verbatim>\<open>sub in s\<close> for strings: \<open>sub\<close> occurs somewhere in \<open>s\<close>.\<close>

fun py_in :: "string \<Rightarrow> string \<Rightarrow> bool" where
  "py_in sub [] = (sub = [])"
| "py_in sub (c # cs) = (take (length sub) (c # cs) = sub \<or> py_in sub cs)"

text \<open>A value computed without the state, or the exception it raised.\<close>

definition py_lift :: "exc + 'a \<Rightarrow> ('w, 'a) py" where
  "py_lift r s = (r, s)"

subsection \<open>\<^verbatim>\<open>commit_and_push_changes\<close>\<close>

definition commit_and_push_changes :: "'w shell \<Rightarrow> string \<Rightarrow> ('w, bool) py" where
  "commit_and_push_changes sh commit_message =
     try_except_Exception
       (py_bind (run_command sh ''git status --porcelain'' False) (\<lambda>status.
          if status = [] then py_return False
          else
            py_bind (run_command sh ''git status --short'' False) (\<lambda>_.
            py_bind (run_command sh ''git add .'' True) (\<lambda>_.
            py_bind (run_command sh
                (''git commit -m '' @ [CHR 0x22] @ commit_message @ [CHR 0x22]) True) (\<lambda>_.
            py_bind (run_command sh ''git push upstream main'' True) (\<lambda>_.
            py_bind (run_command sh ''git push origin main'' True) (\<lambda>_.
            py_return True)))))))
       (py_return False)"

subsection \<open>\<^verbatim>\<open>create_github_release\<close>\<close>

definition create_github_release :: "'w shell \<Rightarrow> string \<Rightarrow> string \<Rightarrow> ('w, bool) py" where
  "create_github_release sh version release_notes =
     try_except_Exception
       (let tag = ''v'' @ version;
            release_cmd = ''gh release create '' @ tag @ '' --title '' @ [CHR 0x22]
              @ ''Release '' @ version @ [CHR 0x22]
              @ '' --repo basicmicrosupport/basicmicro_arduino'';
            release_cmd' =
              (if release_notes \<noteq> []
               then release_cmd @ '' --notes '' @ [CHR 0x22] @ release_notes @ [CHR 0x22]
               else release_cmd @ '' --generate-notes'')
        in py_bind (run_command sh release_cmd' True) (\<lambda>_. py_return True))
       (py_return False)"

subsection \<open>\<^verbatim>\<open>setup_remotes\<close>\<close>

definition UPSTREAM_URL :: string where
  "UPSTREAM_URL = ''https://github.com/acidtech/basicmicro_arduino''"

definition ORIGIN_URL :: string where
  "ORIGIN_URL = ''https://github.com/basicmicrosupport/basicmicro_arduino''"

definition setup_remotes :: "'w shell \<Rightarrow> ('w, bool) py" where
  "setup_remotes sh =
     try_except_Exception
       (py_bind (run_command sh ''git remote -v'' False) (\<lambda>remotes_output.
          let has_upstream = py_in ''upstream'' remotes_output;
              has_origin = py_in ''origin'' remotes_output
          in
            py_bind
              (if \<not> has_upstream
               then py_bind (run_command sh (''git remote add upstream '' @ UPSTREAM_URL) True)
                      (\<lambda>_. py_return ())
               else py_return ()) (\<lambda>_.
            py_bind
              (if \<not> has_origin
               then py_bind (run_command sh (''git remote add origin '' @ ORIGIN_URL) True)
                      (\<lambda>_. py_return ())
               else py_return ()) (\<lambda>_.
            py_return True))))
       (py_return False)"

subsection \<open>\<^verbatim>\<open>check_arduino_library_format\<close>\<close>

text \<open>\<^verbatim>\<open>os.path.exists('library.properties')\<close> is whether the file is there.\<close>

definition check_arduino_library_format :: "('w, bool) py" where
  "check_arduino_library_format s =
     (let issues = (if props_file s = None
                    then [''Missing required file: library.properties''] else [])
      in if issues \<noteq> []
         then py_bind (get_yes_no ''Continue anyway?'' False) (\<lambda>yes.
                if \<not> yes then py_return False else py_return True) s
         else py_return True s)"

subsection \<open>\<^verbatim>\<open>main\<close>\<close>

text \<open>
  \<open>sh\<close> is the external world's answer to commands and \<open>linesep\<close> the platform's line
  separator. What \<^verbatim>\<open>main\<close> prints is not modelled: no step depends on it.
\<close>

definition main :: "'w shell \<Rightarrow> string \<Rightarrow> ('w, unit) py" where
  "main sh linesep =
     py_bind (try_except (run_command sh ''git rev-parse --git-dir'' True)
                (py_raise (SystemExit 1))) (\<lambda>_.
     py_bind check_arduino_library_format (\<lambda>ok.
     if \<not> ok then py_raise (SystemExit 1)
     else
       py_bind (setup_remotes sh) (\<lambda>_.
       py_bind get_current_version (\<lambda>current_version.
       py_bind (input ''Bump type (major/minor/patch) [patch]: '') (\<lambda>line.
       let bump_type = (if strip line \<noteq> [] then strip line else ''patch'')
       in
       py_bind (py_lift (bump_version current_version bump_type)) (\<lambda>new_version.
       py_bind (get_yes_no ''Continue with this version?'' True) (\<lambda>yes.
       if \<not> yes then py_raise (SystemExit 0)
       else
         py_bind (update_version_in_library_properties linesep new_version) (\<lambda>updated.
         if \<not> updated then py_raise (SystemExit 1)
         else
           py_bind (input (''Commit message [Bump version to '' @ new_version @ '']: ''))
             (\<lambda>line2.
           let commit_message =
                 (if strip line2 = [] then ''Bump version to '' @ new_version else strip line2)
           in
           py_bind (commit_and_push_changes sh commit_message) (\<lambda>pushed.
           if \<not> pushed then py_raise (SystemExit 1)
           else
             py_bind (input ''Release notes (optional): '') (\<lambda>line3.
             py_bind (create_github_release sh new_version (strip line3)) (\<lambda>_.
             py_return ()))))))))))))"

text \<open>A run of the script: \<^verbatim>\<open>main\<close> from the state in which nothing has happened yet.\<close>

definition run :: "'w shell \<Rightarrow> string \<Rightarrow> 'w \<Rightarrow> string option \<Rightarrow> string list
    \<Rightarrow> (exc + unit) \<times> 'w state" where
  "run sh linesep w f ins =
     main sh linesep \<lparr>world = w, props_file = f, inputs = ins, trace = []\<rparr>"

subsection \<open>A sample world\<close>

text \<open>
  A sample world for the examples below. The world has no state of its own; the working
  tree has one pending change; every command exits with 0, except the commands that start
  with \<open>failing\<close> (when that is not empty), which exit with 1.
\<close>

definition sample_shell :: "string \<Rightarrow> unit shell" where
  "sample_shell failing w cmd =
     (if failing \<noteq> [] \<and> take (length failing) cmd = failing
      then (CompletedProcess 1 [] ''failed'', w)
      else if cmd = ''git status --porcelain''
      then (CompletedProcess 0 '' M library.properties'' [], w)
      else (CompletedProcess 0 [] [], w))"

subsection \<open>Properties of computations\<close>

text \<open>
  The theorems about whole runs are put together step by step along \<^verbatim>\<open>main\<close>, from
  properties that a computation has in every state it may start in:

  \<^item> \<open>quiet E m\<close>: \<open>m\<close> only appends to the trace, and only events that satisfy \<open>E\<close>;
  \<^item> \<open>keeps_file m\<close>: \<open>m\<close> leaves \<^verbatim>\<open>library.properties\<close> as it is;
  \<^item> \<open>raises E m\<close>: every exception that \<open>m\<close> raises satisfies \<open>E\<close>;
  \<^item> \<open>stops fr X ex m\<close>: \<open>m\<close> only appends to the trace, and an event that satisfies \<open>X\<close>
    can only be the last one it appends, in which case \<open>m\<close> ends by raising \<open>ex\<close> (and, when
    \<open>fr\<close> is set, has left the file as it was);
  \<^item> \<open>stops_at F fr X ex m\<close>: the same, from the states in which the file is \<open>F\<close>;
  \<^item> \<open>ends_at F E m\<close>: from the states in which the file is \<open>F\<close>, \<open>m\<close> raises an exception
    that satisfies \<open>E\<close> and leaves the file as it is.
\<close>

definition quiet :: "(event \<Rightarrow> bool) \<Rightarrow> ('w, 'a) py \<Rightarrow> bool" where
  "quiet E m = (\<forall>s. \<exists>evs. trace (snd (m s)) = trace s @ evs \<and> list_all E evs)"

definition keeps_file :: "('w, 'a) py \<Rightarrow> bool" where
  "keeps_file m = (\<forall>s. props_file (snd (m s)) = props_file s)"


definition stops :: "bool \<Rightarrow> (event \<Rightarrow> bool) \<Rightarrow> exc \<Rightarrow> ('w, 'a) py \<Rightarrow> bool" where
  "stops fr X ex m =
     (\<forall>s. \<exists>evs. trace (snd (m s)) = trace s @ evs \<and>
        (list_all (\<lambda>e. \<not> X e) evs \<or>
         (list_all (\<lambda>a. \<not> X a) (butlast evs) \<and> fst (m s) = Inl ex \<and>
          (fr \<longrightarrow> props_file (snd (m s)) = props_file s))))"

definition stops_at :: "string option \<Rightarrow> bool \<Rightarrow> (event \<Rightarrow> bool) \<Rightarrow> exc \<Rightarrow> ('w, 'a) py \<Rightarrow> bool" where
  "stops_at F fr X ex m =
     (\<forall>s. props_file s = F \<longrightarrow>
        (\<exists>evs. trace (snd (m s)) = trace s @ evs \<and>
           (list_all (\<lambda>a. \<not> X a) evs \<or>
            (list_all (\<lambda>a. \<not> X a) (butlast evs) \<and> fst (m s) = Inl ex \<and>
             (fr \<longrightarrow> props_file (snd (m s)) = props_file s)))))"


subsection \<open>Declined prompts and pushes in a trace\<close>

text \<open>
  A response declines a yes/no prompt when the answer it gives is no: by default when it
  is blank and the default is no, explicitly when its first character after white space
  is neither \<^verbatim>\<open>y\<close> nor \<^verbatim>\<open>Y\<close>.
\<close>

definition declines :: "bool \<Rightarrow> string \<Rightarrow> bool" where
  "declines dflt response =
     (case dropWhile isspace response of
        [] \<Rightarrow> \<not> dflt
      | c # _ \<Rightarrow> c \<noteq> CHR ''y'' \<and> c \<noteq> CHR ''Y'')"

text \<open>The event of a run in which the yes/no prompt \<open>prompt\<close> was declined.\<close>

definition declined :: "string \<Rightarrow> bool \<Rightarrow> event \<Rightarrow> bool" where
  "declined prompt dflt a =
     (case a of Asked p l \<Rightarrow> p = prompt \<and> declines dflt l | Ran _ _ \<Rightarrow> False)"





section \<open>Properties\<close>

subsection \<open>Decimal literals and splitting\<close>

lemma is_digit_char_of: "(d::nat) < 10 \<Longrightarrow> is_digit (char_of (48 + d))"
  by (simp add: is_digit_def Let_def)

lemma digit_val_char_of: "(d::nat) < 10 \<Longrightarrow> digit_val (char_of (48 + d)) = d"
  by (simp add: digit_val_def)

lemma nat_str_digits: "list_all is_digit (nat_str n)"
proof (induction n rule: nat_str.induct)
  case (1 n)
  show ?case
  proof (cases "n < 10")
    case True
    then show ?thesis by (subst nat_str.simps) (simp add: is_digit_char_of)
  next
    case False
    with 1 show ?thesis by (subst nat_str.simps) (simp add: is_digit_char_of)
  qed
qed

lemma nat_str_nonempty: "nat_str n \<noteq> []"
  by (subst nat_str.simps) simp

lemma parse_digits_all: "list_all is_digit s \<Longrightarrow> parse_digits acc s = Some (dec_val acc s)"
  by (induction s arbitrary: acc) (simp_all add: dec_val_def)

lemma filter_digits_all: "list_all is_digit s \<Longrightarrow> filter is_digit s = s"
  by (simp add: list_all_iff)

lemma parse_nat_all:
  assumes "s \<noteq> []" "list_all is_digit s" "length s \<le> int_max_str_digits"
  shows "parse_nat s = Some (dec_val 0 s)"
proof -
  from assms(1) obtain c cs where s: "s = c # cs" by (cases s) auto
  from assms(2) have f: "filter is_digit s = s" by (rule filter_digits_all)
  from assms(2) s have c: "is_digit c" and cs: "list_all is_digit cs" by simp_all
  have "parse_nat s = parse_digits (digit_val c) cs"
    unfolding parse_nat_def f using s c assms(3) by simp
  also have "\<dots> = Some (dec_val (digit_val c) cs)" using cs by (rule parse_digits_all)
  also have "dec_val (digit_val c) cs = dec_val 0 s" by (simp add: dec_val_def s)
  finally show ?thesis .
qed

lemma dec_val_nat_str: "dec_val 0 (nat_str n) = n"
proof (induction n rule: nat_str.induct)
  case (1 n)
  show ?case
  proof (cases "n < 10")
    case True
    then show ?thesis by (subst nat_str.simps) (simp add: dec_val_def digit_val_char_of)
  next
    case False
    with 1 have "dec_val 0 (nat_str (n div 10)) = n div 10" by simp
    with False show ?thesis
      by (subst nat_str.simps) (simp add: dec_val_def digit_val_char_of)
  qed
qed

text \<open>A number has at most \<open>k\<close> decimal digits exactly when it is below \<open>10 ^ k\<close>.\<close>

lemma nat_str_length: "0 < k \<Longrightarrow> (length (nat_str n) \<le> k) = (n < 10 ^ k)"
proof (induction n arbitrary: k rule: nat_str.induct)
  case (1 n)
  show ?case
  proof (cases "n < 10")
    case True
    have "(10::nat) ^ 1 \<le> 10 ^ k" using "1.prems" by (intro power_increasing) simp_all
    with True have "n < 10 ^ k" by simp
    moreover have "length (nat_str n) = 1" using True by (subst nat_str.simps) simp
    ultimately show ?thesis using "1.prems" by simp
  next
    case False
    have len: "length (nat_str n) = Suc (length (nat_str (n div 10)))"
      using False by (subst nat_str.simps) simp
    from "1.prems" obtain j where k: "k = Suc j" by (cases k) auto
    show ?thesis
    proof (cases "j = 0")
      case True
      have "length (nat_str (n div 10)) \<noteq> 0" using nat_str_nonempty by simp
      with len True k False show ?thesis by simp
    next
      case j: False
      with False have "(length (nat_str (n div 10)) \<le> j) = (n div 10 < 10 ^ j)"
        by (intro "1.IH") simp_all
      also have "\<dots> = (n < 10 ^ j * 10)" by (simp add: div_less_iff_less_mult)
      finally show ?thesis using len k by (simp add: mult.commute)
    qed
  qed
qed

lemma int_max_str_digits_pos: "0 < int_max_str_digits"
  by (simp add: int_max_str_digits_def)

lemma py_str_None_iff: "(py_str i = None) = (10 ^ int_max_str_digits \<le> \<bar>i\<bar>)"
proof -
  have "(py_str i = None) = (\<not> length (nat_str (nat \<bar>i\<bar>)) \<le> int_max_str_digits)"
    by (auto simp: py_str_def Let_def)
  also have "\<dots> = (\<not> nat \<bar>i\<bar> < 10 ^ int_max_str_digits)"
    by (simp only: nat_str_length [OF int_max_str_digits_pos])
  also have "\<dots> = (int (10 ^ int_max_str_digits) \<le> \<bar>i\<bar>)"
    by (simp add: le_nat_iff not_less)
  finally show ?thesis by simp
qed

lemma py_str_SomeD:
  assumes "py_str i = Some t"
  shows "t = (if i < 0 then CHR ''-'' # nat_str (nat \<bar>i\<bar>) else nat_str (nat \<bar>i\<bar>))"
    and "length (nat_str (nat \<bar>i\<bar>)) \<le> int_max_str_digits"
  using assms by (auto simp: py_str_def Let_def split: if_splits)

lemma parse_nat_nat_str:
  "length (nat_str n) \<le> int_max_str_digits \<Longrightarrow> parse_nat (nat_str n) = Some n"
  by (simp add: parse_nat_all nat_str_nonempty nat_str_digits dec_val_nat_str)

lemma digit_not_space: "is_digit c \<Longrightarrow> \<not> int_space c"
  by (auto simp: is_digit_def int_space_def Let_def)

lemma strip_with_id:
  assumes "s \<noteq> []" "\<not> sp (hd s)" "\<not> sp (last s)"
  shows "strip_with sp s = s"
proof -
  from assms have "dropWhile sp s = s" by (cases s) simp_all
  moreover from assms have "dropWhile sp (rev s) = rev s"
    by (cases "rev s") (simp_all add: hd_rev)
  ultimately show ?thesis by (simp add: strip_with_def)
qed

lemma nat_str_hd_last: "is_digit (hd (nat_str n))" "is_digit (last (nat_str n))"
  using nat_str_digits [of n] nat_str_nonempty [of n]
  by (cases "nat_str n"; simp add: list_all_iff)+

lemma minus_not_int_space: "\<not> int_space (CHR ''-'')"
  by (simp add: int_space_def)

lemma digit_not_sign: "is_digit c \<Longrightarrow> c \<noteq> CHR ''-'' \<and> c \<noteq> CHR ''+''"
  by (auto simp: is_digit_def)

text \<open>What \<^verbatim>\<open>str\<close> writes, \<^verbatim>\<open>int\<close> reads back.\<close>

lemma py_int_py_str:
  assumes "py_str i = Some t"
  shows "py_int t = Some i"
proof (cases "i < 0")
  case True
  let ?d = "nat_str (nat \<bar>i\<bar>)"
  from py_str_SomeD [OF assms] True have t: "t = CHR ''-'' # ?d"
    and len: "length ?d \<le> int_max_str_digits" by simp_all
  have "strip_with int_space (CHR ''-'' # ?d) = CHR ''-'' # ?d"
    by (rule strip_with_id)
       (simp_all add: minus_not_int_space nat_str_nonempty nat_str_hd_last digit_not_space)
  with True len show ?thesis
    by (simp add: py_int_def t parse_nat_nat_str)
next
  case False
  let ?d = "nat_str (nat \<bar>i\<bar>)"
  from py_str_SomeD [OF assms] False have t: "t = ?d"
    and len: "length ?d \<le> int_max_str_digits" by simp_all
  obtain c cs where cs: "?d = c # cs"
    using nat_str_nonempty [of "nat \<bar>i\<bar>"] by (cases ?d) auto
  have dc: "is_digit c" using nat_str_hd_last(1) [of "nat \<bar>i\<bar>"] cs by simp
  have "strip_with int_space ?d = ?d"
    by (rule strip_with_id)
       (simp_all add: nat_str_nonempty nat_str_hd_last digit_not_space)
  then have "py_int ?d = map_option int (parse_nat ?d)"
    using digit_not_sign [OF dc] by (simp add: py_int_def cs)
  with False len show ?thesis
    by (simp add: t parse_nat_nat_str)
qed

lemma split_from_no_sep:
  "d \<notin> set s \<Longrightarrow> split_from d cur (s @ t) = split_from d (cur @ s) t"
  by (induction s arbitrary: cur) auto

lemma split_join:
  "ps \<noteq> [] \<Longrightarrow> \<forall>p\<in>set ps. d \<notin> set p \<Longrightarrow> split (join [d] ps) d = ps"
proof (induction "[d]" ps rule: join.induct)
  case 1
  then show ?case by simp
next
  case (2 p)
  then show ?case
    using split_from_no_sep [of d p "[]" "[]"] by (simp add: split_def)
next
  case (3 p q ps)
  then have IH: "split_from d [] (join [d] (q # ps)) = q # ps" by (simp add: split_def)
  have "split_from d [] (p @ d # join [d] (q # ps)) = split_from d p (d # join [d] (q # ps))"
    using split_from_no_sep [of d p "[]"] "3.prems" by simp
  then show ?case using IH by (simp add: split_def)
qed

lemma split_from_no_sep_parts:
  "d \<notin> set cur \<Longrightarrow> p \<in> set (split_from d cur s) \<Longrightarrow> d \<notin> set p"
proof (induction s arbitrary: cur)
  case Nil
  then show ?case by simp
next
  case (Cons c cs)
  show ?case
  proof (cases "c = d")
    case True
    with Cons.prems have "p = cur \<or> p \<in> set (split_from d [] cs)" by simp
    then show ?thesis using Cons.IH [of "[]"] Cons.prems(1) by auto
  next
    case False
    with Cons.prems have "p \<in> set (split_from d (cur @ [c]) cs)" by simp
    moreover from False Cons.prems(1) have "d \<notin> set (cur @ [c])" by simp
    ultimately show ?thesis by (rule Cons.IH [rotated])
  qed
qed

lemma split_parts_no_sep: "p \<in> set (split s d) \<Longrightarrow> d \<notin> set p"
  using split_from_no_sep_parts [of d "[]" p s] by (simp add: split_def)

lemma split_from_nonempty: "split_from d cur s \<noteq> []"
  by (induction s arbitrary: cur) simp_all

lemma split_nonempty: "split s d \<noteq> []"
  by (simp add: split_def split_from_nonempty)

lemma nat_str_no_dot: "CHR ''.'' \<notin> set (nat_str n)"
proof
  assume "CHR ''.'' \<in> set (nat_str n)"
  with nat_str_digits [of n] have "is_digit (CHR ''.'')" by (simp add: list_all_iff)
  then show False by (simp add: is_digit_def)
qed

lemma py_str_no_dot: "py_str i = Some t \<Longrightarrow> CHR ''.'' \<notin> set t"
  by (auto dest!: py_str_SomeD(1) simp: nat_str_no_dot split: if_splits)

subsection \<open>Version bumps\<close>

lemma py_int_zero: "py_int ''0'' = Some 0"
  by (simp add: py_int_def strip_with_def int_space_def parse_nat_def is_digit_def digit_val_def
      int_max_str_digits_def)

lemma version_triple_join:
  assumes "CHR ''.'' \<notin> set p0" "CHR ''.'' \<notin> set p1" "CHR ''.'' \<notin> set p2"
    and "py_int p0 = Some a" "py_int p1 = Some b" "py_int p2 = Some c"
  shows "version_triple (join ''.'' [p0, p1, p2]) = Some (a, b, c)"
proof -
  have "split (join ''.'' [p0, p1, p2]) (CHR ''.'') = [p0, p1, p2]"
    using assms(1-3) by (intro split_join) simp_all
  then show ?thesis using assms(4-6) by (simp add: version_triple_def)
qed

lemma padded_parts:
  assumes len: "length (split v (CHR ''.'')) \<le> 3"
    and ints: "\<forall>p\<in>set (split v (CHR ''.'')). py_int p \<noteq> None"
  obtains p0 p1 p2 a b c where
    "split v (CHR ''.'') @ replicate (3 - length (split v (CHR ''.''))) ''0'' = [p0, p1, p2]"
    "CHR ''.'' \<notin> set p0" "CHR ''.'' \<notin> set p1" "CHR ''.'' \<notin> set p2"
    "py_int p0 = Some a" "py_int p1 = Some b" "py_int p2 = Some c"
proof -
  let ?ps = "split v (CHR ''.'')"
  have ne: "?ps \<noteq> []" by (rule split_nonempty)
  have nodot: "\<And>p. p \<in> set ?ps \<Longrightarrow> CHR ''.'' \<notin> set p" by (rule split_parts_no_sep)
  have z: "CHR ''.'' \<notin> set ''0''" by simp
  from ne len consider
    (one) x where "?ps = [x]" | (two) x y where "?ps = [x, y]" | (three) x y z where "?ps = [x, y, z]"
    by (cases ?ps rule: list.exhaust; simp; rename_tac a as; case_tac as; simp; rename_tac b bs; case_tac bs; simp)
  then show thesis
  proof cases
    case one
    with ints nodot obtain a where "py_int x = Some a" "CHR ''.'' \<notin> set x" by auto
    with one z py_int_zero show ?thesis by (intro that [of x "''0''" "''0''" a 0 0]) (simp_all add: numeral_3_eq_3)
  next
    case two
    with ints nodot obtain a b where "py_int x = Some a" "CHR ''.'' \<notin> set x"
      "py_int y = Some b" "CHR ''.'' \<notin> set y" by auto
    with two z py_int_zero show ?thesis by (intro that [of x y "''0''" a b 0]) simp_all
  next
    case three
    with ints nodot obtain a b c where "py_int x = Some a" "CHR ''.'' \<notin> set x"
      "py_int y = Some b" "CHR ''.'' \<notin> set y" "py_int z = Some c" "CHR ''.'' \<notin> set z" by auto
    with three show ?thesis by (intro that [of x y z a b c]) simp_all
  qed
qed

text \<open>
  One bump, once the number to write is known: the documented triple when \<^verbatim>\<open>str\<close> can
  write the number, \<^verbatim>\<open>ValueError\<close> when it has too many digits.
\<close>

lemma transition_cases:
  assumes bump: "b = (case py_str n of None \<Rightarrow> Inl ValueError | Some t \<Rightarrow> Inr (f t))"
    and tr: "\<And>t. py_str n = Some t \<Longrightarrow> version_triple (f t) = Some T"
  shows "if \<bar>n\<bar> < 10 ^ int_max_str_digits
         then \<exists>s. b = Inr s \<and> version_triple s = Some T
         else b = Inl ValueError"
proof (cases "py_str n")
  case None
  then have "\<not> \<bar>n\<bar> < 10 ^ int_max_str_digits" by (simp add: py_str_None_iff)
  with None bump show ?thesis by simp
next
  case (Some t)
  then have "\<bar>n\<bar> < 10 ^ int_max_str_digits"
    using py_str_None_iff [of n] by simp
  with Some bump tr [OF Some] show ?thesis by simp
qed

text \<open>
  Claim C1, as the code has it. For every version string with one to three components that
  \<^verbatim>\<open>int()\<close> accepts (a missing trailing component counts as 0), and for each of the three
  kinds: when the incremented number has at most 4300 digits (it is below \<open>10 ^ 4300\<close> in
  absolute value), \<open>bump_version\<close> returns a version whose triple is the documented
  transition of the triple of its argument, \<open>(major + 1, 0, 0)\<close> for \<^verbatim>\<open>major\<close>,
  \<open>(major, minor + 1, 0)\<close> for \<^verbatim>\<open>minor\<close> and \<open>(major, minor, patch + 1)\<close> for
  \<^verbatim>\<open>patch\<close>; when it has more digits, \<open>bump_version\<close> raises \<^verbatim>\<open>ValueError\<close>. The
  witness is the version \<^verbatim>\<open>9\<close>, which is read as \<open>(9, 0, 0)\<close>.
\<close>

theorem bump_version_transitions:
  assumes len: "length (split v (CHR ''.'')) \<le> 3"
    and ints: "\<forall>p\<in>set (split v (CHR ''.'')). py_int p \<noteq> None"
  shows "\<exists>a b c. version_triple v = Some (a, b, c) \<and>
      (if \<bar>a + 1\<bar> < 10 ^ int_max_str_digits
       then \<exists>s. bump_version v ''major'' = Inr s \<and> version_triple s = Some (a + 1, 0, 0)
       else bump_version v ''major'' = Inl ValueError) \<and>
      (if \<bar>b + 1\<bar> < 10 ^ int_max_str_digits
       then \<exists>s. bump_version v ''minor'' = Inr s \<and> version_triple s = Some (a, b + 1, 0)
       else bump_version v ''minor'' = Inl ValueError) \<and>
      (if \<bar>c + 1\<bar> < 10 ^ int_max_str_digits
       then \<exists>s. bump_version v ''patch'' = Inr s \<and> version_triple s = Some (a, b, c + 1)
       else bump_version v ''patch'' = Inl ValueError)"
proof -
  let ?ps = "split v (CHR ''.'')"
  from len ints obtain p0 p1 p2 a b c where
    pad: "?ps @ replicate (3 - length ?ps) ''0'' = [p0, p1, p2]"
    and nd: "CHR ''.'' \<notin> set p0" "CHR ''.'' \<notin> set p1" "CHR ''.'' \<notin> set p2"
    and pi: "py_int p0 = Some a" "py_int p1 = Some b" "py_int p2 = Some c"
    by (rule padded_parts)
  have parts: "(if length ?ps < 3 then ?ps @ replicate (3 - length ?ps) ''0'' else ?ps) = [p0, p1, p2]"
    using pad len by (cases "length ?ps < 3") auto
  have z: "CHR ''.'' \<notin> set ''0''" by simp
  have t: "version_triple v = Some (a, b, c)"
    unfolding version_triple_def Let_def pad by (simp add: pi)
  have major: "bump_version v ''major'' =
      (case py_str (a + 1) of None \<Rightarrow> Inl ValueError
       | Some t \<Rightarrow> Inr (join ''.'' [t, ''0'', ''0'']))"
    using parts pi by (simp add: bump_version_def split: option.splits)
  have minor: "bump_version v ''minor'' =
      (case py_str (b + 1) of None \<Rightarrow> Inl ValueError
       | Some t \<Rightarrow> Inr (join ''.'' [p0, t, ''0'']))"
    using parts pi by (simp add: bump_version_def split: option.splits)
  have patch: "bump_version v ''patch'' =
      (case py_str (c + 1) of None \<Rightarrow> Inl ValueError
       | Some t \<Rightarrow> Inr (join ''.'' [p0, p1, t]))"
    using parts pi by (simp add: bump_version_def split: option.splits)
  have 1: "if \<bar>a + 1\<bar> < 10 ^ int_max_str_digits
       then \<exists>s. bump_version v ''major'' = Inr s \<and> version_triple s = Some (a + 1, 0, 0)
       else bump_version v ''major'' = Inl ValueError"
    using major
  proof (rule transition_cases)
    fix t assume "py_str (a + 1) = Some t"
    then show "version_triple (join ''.'' [t, ''0'', ''0'']) = Some (a + 1, 0, 0)"
      by (intro version_triple_join) (simp_all add: py_str_no_dot py_int_py_str py_int_zero)
  qed
  have 2: "if \<bar>b + 1\<bar> < 10 ^ int_max_str_digits
       then \<exists>s. bump_version v ''minor'' = Inr s \<and> version_triple s = Some (a, b + 1, 0)
       else bump_version v ''minor'' = Inl ValueError"
    using minor
  proof (rule transition_cases)
    fix t assume "py_str (b + 1) = Some t"
    then show "version_triple (join ''.'' [p0, t, ''0'']) = Some (a, b + 1, 0)"
      by (intro version_triple_join) (simp_all add: nd pi py_str_no_dot py_int_py_str py_int_zero)
  qed
  have 3: "if \<bar>c + 1\<bar> < 10 ^ int_max_str_digits
       then \<exists>s. bump_version v ''patch'' = Inr s \<and> version_triple s = Some (a, b, c + 1)
       else bump_version v ''patch'' = Inl ValueError"
    using patch
  proof (rule transition_cases)
    fix t assume "py_str (c + 1) = Some t"
    then show "version_triple (join ''.'' [p0, p1, t]) = Some (a, b, c + 1)"
      by (intro version_triple_join) (simp_all add: nd pi py_str_no_dot py_int_py_str)
  qed
  from t 1 2 3 show ?thesis by blast
qed

lemma small_below_limit: "\<bar>i\<bar> < 100 \<Longrightarrow> \<bar>i :: int\<bar> < 10 ^ int_max_str_digits"
proof -
  assume "\<bar>i\<bar> < 100"
  moreover have "(10::int) ^ 2 \<le> 10 ^ int_max_str_digits"
    by (rule power_increasing) (simp_all add: int_max_str_digits_def)
  ultimately show ?thesis by simp
qed

theorem bump_version_transitions_witness:
  "split ''9'' (CHR ''.'') = [''9''] \<and> py_int ''9'' = Some 9 \<and>
   version_triple ''9'' = Some (9, 0, 0) \<and>
   (\<exists>s. bump_version ''9'' ''major'' = Inr s \<and> version_triple s = Some (10, 0, 0)) \<and>
   (\<exists>s. bump_version ''9'' ''minor'' = Inr s \<and> version_triple s = Some (9, 1, 0)) \<and>
   (\<exists>s. bump_version ''9'' ''patch'' = Inr s \<and> version_triple s = Some (9, 0, 1))"
proof -
  have sp: "split ''9'' (CHR ''.'') = [''9'']" by (simp add: split_def)
  have p9: "py_int ''9'' = Some 9"
    by (simp add: py_int_def strip_with_def int_space_def parse_nat_def is_digit_def digit_val_def
        int_max_str_digits_def)
  have h1: "length (split ''9'' (CHR ''.'')) \<le> 3" by (simp add: sp)
  have h2: "\<forall>p\<in>set (split ''9'' (CHR ''.'')). py_int p \<noteq> None" by (simp add: sp p9)
  have t: "version_triple ''9'' = Some (9, 0, 0)"
    by (simp add: version_triple_def sp p9 py_int_zero numeral_3_eq_3)
  have small: "\<bar>9 + 1 :: int\<bar> < 10 ^ int_max_str_digits" "\<bar>0 + 1 :: int\<bar> < 10 ^ int_max_str_digits"
    by (rule small_below_limit, simp)+
  from bump_version_transitions [OF h1 h2] t sp p9 small show ?thesis by simp
qed

text \<open>The value of a string of nines.\<close>

lemma dec_val_nines: "dec_val acc (replicate n (CHR ''9'')) = (acc + 1) * 10 ^ n - 1"
proof (induction n arbitrary: acc)
  case 0
  then show ?case by (simp add: dec_val_def)
next
  case (Suc n)
  have "dec_val acc (replicate (Suc n) (CHR ''9'')) = dec_val (acc * 10 + 9) (replicate n (CHR ''9''))"
    by (simp add: dec_val_def digit_val_def)
  also have "\<dots> = (acc * 10 + 9 + 1) * 10 ^ n - 1" by (rule Suc.IH)
  also have "(acc * 10 + 9 + 1) * 10 ^ n = (acc + 1) * 10 ^ Suc n" by (simp add: algebra_simps)
  finally show ?case .
qed

lemma py_int_nines:
  assumes "0 < n" "n \<le> int_max_str_digits"
  shows "py_int (replicate n (CHR ''9'')) = Some (10 ^ n - 1)"
proof -
  let ?s = "replicate n (CHR ''9'')"
  from assms(1) obtain m where n: "n = Suc m" by (cases n) auto
  have d9: "is_digit (CHR ''9'')" by (simp add: is_digit_def)
  have ne: "?s \<noteq> []" using assms(1) by simp
  have st: "strip_with int_space ?s = ?s"
    using assms(1) by (intro strip_with_id) (simp_all add: digit_not_space [OF d9])
  have "parse_nat ?s = Some (dec_val 0 ?s)"
    using ne assms(2) by (intro parse_nat_all) (simp_all add: list_all_iff d9)
  then have pn: "parse_nat ?s = Some (10 ^ n - 1)" by (simp add: dec_val_nines)
  have "py_int ?s = map_option int (parse_nat ?s)"
    unfolding py_int_def st using digit_not_sign [OF d9] by (simp add: n)
  also have "\<dots> = Some (int (10 ^ n - 1))" by (simp only: pn option.map)
  also have "int (10 ^ n - 1) = 10 ^ n - 1" by (simp add: of_nat_diff)
  finally show ?thesis .
qed

text \<open>
  Claim C1 as stated fails on the version of 4300 nines: it has one component, which
  \<^verbatim>\<open>int()\<close> accepts, so it stands for the triple \<open>(10 ^ 4300 - 1, 0, 0)\<close>; but the major bump
  does not yield \<open>(10 ^ 4300, 0, 0)\<close>, it raises \<^verbatim>\<open>ValueError\<close>, because \<^verbatim>\<open>str\<close> refuses to
  write a number of 4301 digits.
\<close>

theorem bump_version_digit_limit_counterexample:
  "int_max_str_digits = 4300 \<and>
   split (replicate int_max_str_digits (CHR ''9'')) (CHR ''.'') =
     [replicate int_max_str_digits (CHR ''9'')] \<and>
   version_triple (replicate int_max_str_digits (CHR ''9'')) =
     Some (10 ^ int_max_str_digits - 1, 0, 0) \<and>
   bump_version (replicate int_max_str_digits (CHR ''9'')) ''major'' = Inl ValueError"
proof -
  let ?L = int_max_str_digits
  let ?s = "replicate ?L (CHR ''9'')"
  have sp: "split ?s (CHR ''.'') = [?s]"
    using split_from_no_sep [of "CHR ''.''" ?s "[]" "[]"] by (simp add: split_def)
  have pi: "py_int ?s = Some (10 ^ ?L - 1)"
    by (rule py_int_nines) (simp_all add: int_max_str_digits_pos)
  have t: "version_triple ?s = Some (10 ^ ?L - 1, 0, 0)"
    unfolding version_triple_def Let_def sp by (simp add: pi py_int_zero numeral_3_eq_3)
  have "py_str (10 ^ ?L - 1 + 1) = None" by (simp add: py_str_None_iff)
  then have b: "bump_version ?s ''major'' = Inl ValueError"
    unfolding bump_version_def Let_def sp by (simp add: pi numeral_3_eq_3)
  have "int_max_str_digits = 4300" by (simp add: int_max_str_digits_def)
  with sp t b show ?thesis by (intro conjI)
qed

text \<open>
  What \<open>bump_version\<close> gives, for every version and every kind. Only the component that
  the bump increments is read as a number: the first for \<^verbatim>\<open>major\<close>, the second for
  \<^verbatim>\<open>minor\<close>, the third for any other kind, after the version has been padded to three
  components with \<^verbatim>\<open>0\<close>.
\<close>

lemma padded_shape:
  obtains p0 p1 p2 rest where
    "split v (CHR ''.'') @ replicate (3 - length (split v (CHR ''.''))) ''0'' = p0 # p1 # p2 # rest"
    "\<forall>p\<in>set (p0 # p1 # p2 # rest). CHR ''.'' \<notin> set p"
proof -
  let ?ps = "split v (CHR ''.'') @ replicate (3 - length (split v (CHR ''.''))) ''0''"
  have "3 \<le> length ?ps" by simp
  then obtain p0 p1 p2 rest where ps: "?ps = p0 # p1 # p2 # rest"
    by (cases ?ps rule: list.exhaust; simp; rename_tac a as; case_tac as; simp; rename_tac b bs; case_tac bs; simp)
  have "\<forall>p\<in>set ?ps. CHR ''.'' \<notin> set p"
    by (auto dest: split_parts_no_sep)
  with ps show thesis by (intro that [of p0 p1 p2 rest]) simp_all
qed

lemma bump_version_outcome:
  fixes v k :: string
  defines "ps \<equiv> split v (CHR ''.'') @ replicate (3 - length (split v (CHR ''.''))) ''0''"
    and "i \<equiv> (if k = ''major'' then 0 else if k = ''minor'' then 1 else 2 :: nat)"
  shows "case py_int (ps ! i) of
           None \<Rightarrow> bump_version v k = Inl ValueError
         | Some n \<Rightarrow>
             if 10 ^ int_max_str_digits \<le> \<bar>n + 1\<bar> then bump_version v k = Inl ValueError
             else \<exists>t r. py_str (n + 1) = Some t \<and> bump_version v k = Inr r \<and>
               split r (CHR ''.'') = take i ps @ t # replicate (2 - i) ''0'' @ drop 3 ps"
proof -
  obtain p0 p1 p2 rest where ps: "ps = p0 # p1 # p2 # rest"
    and nd: "\<forall>p\<in>set (p0 # p1 # p2 # rest). CHR ''.'' \<notin> set p"
    unfolding ps_def by (rule padded_shape)
  let ?s = "split v (CHR ''.'')"
  have parts: "(if length ?s < 3 then ?s @ replicate (3 - length ?s) ''0'' else ?s) = ps"
    unfolding ps_def by simp
  have b: "bump_version v k =
     (case py_int (ps ! i) of
        None \<Rightarrow> Inl ValueError
      | Some n \<Rightarrow>
          (case py_str (n + 1) of
             None \<Rightarrow> Inl ValueError
           | Some t \<Rightarrow> Inr (join ''.'' (take i ps @ t # replicate (2 - i) ''0'' @ drop 3 ps))))"
    unfolding bump_version_def Let_def parts
    by (simp add: i_def ps numeral_2_eq_2 split: option.splits)
  show ?thesis
  proof (cases "py_int (ps ! i)")
    case None
    with b show ?thesis by simp
  next
    case (Some n)
    show ?thesis
    proof (cases "py_str (n + 1)")
      case None
      then have "10 ^ int_max_str_digits \<le> \<bar>n + 1\<bar>" by (simp add: py_str_None_iff)
      with b Some None show ?thesis by simp
    next
      case t: (Some t)
      then have small: "\<not> 10 ^ int_max_str_digits \<le> \<bar>n + 1\<bar>"
        using py_str_None_iff [of "n + 1"] by simp
      let ?new = "take i ps @ t # replicate (2 - i) ''0'' @ drop 3 ps"
      have "CHR ''.'' \<notin> set p" if "p \<in> set ?new" for p
      proof -
        from that have "p \<in> set (take i ps) \<or> p = t \<or> p = ''0'' \<or> p \<in> set (drop 3 ps)"
          by auto
        then have "p \<in> set ps \<or> p = t \<or> p = ''0''"
          by (auto dest: in_set_takeD in_set_dropD)
        then show ?thesis using nd py_str_no_dot [OF t] unfolding ps by auto
      qed
      then have "\<forall>p\<in>set ?new. CHR ''.'' \<notin> set p" by blast
      then have "split (join ''.'' ?new) (CHR ''.'') = ?new"
        by (intro split_join) simp_all
      with b Some t small show ?thesis by simp
    qed
  qed
qed

subsection \<open>Yes/no prompts\<close>

lemma strip_with_cons:
  "\<not> sp c \<Longrightarrow> rev (dropWhile sp (rev (c # t))) = c # rev (dropWhile sp (rev t))"
  by (simp add: dropWhile_append)

lemma strip_with_dropWhile:
  "strip_with sp r = (case dropWhile sp r of [] \<Rightarrow> [] | c # t \<Rightarrow> c # rev (dropWhile sp (rev t)))"
proof (cases "dropWhile sp r")
  case Nil
  show ?thesis unfolding strip_with_def Nil by simp
next
  case (Cons c t)
  then have "\<not> sp c" using hd_dropWhile [of sp r] by fastforce
  then show ?thesis unfolding strip_with_def Cons by (simp add: strip_with_cons del: rev.simps)
qed

lemma of_char_eq_numeral: "(of_char c :: nat) = n \<Longrightarrow> c = char_of n"
  by auto

lemma lower_char_y: "lower_char c = CHR ''y'' \<longleftrightarrow> c = CHR ''y'' \<or> c = CHR ''Y''"
proof
  assume l: "lower_char c = CHR ''y''"
  let ?n = "of_char c :: nat"
  show "c = CHR ''y'' \<or> c = CHR ''Y''"
  proof (cases "(65 \<le> ?n \<and> ?n \<le> 90) \<or> (192 \<le> ?n \<and> ?n \<le> 222 \<and> ?n \<noteq> 215)")
    case True
    with l have "char_of (?n + 32) = CHR ''y''" by (simp add: lower_char_def Let_def)
    then have "of_char (char_of (?n + 32)) = (of_char (CHR ''y'') :: nat)" by simp
    with True have "?n = 89" by (auto simp: of_char_of)
    then have "(of_char c :: nat) = of_char (CHR 0x59)" by simp
    then have "c = CHR 0x59" by (simp only: of_char_eq_iff)
    then show ?thesis by simp
  next
    case False
    with l show ?thesis by (simp add: lower_char_def Let_def)
  qed
next
  assume "c = CHR ''y'' \<or> c = CHR ''Y''"
  moreover have "lower_char (CHR ''y'') = CHR ''y''" "lower_char (CHR ''Y'') = CHR ''y''"
    by code_simp+
  ultimately show "lower_char c = CHR ''y''" by auto
qed

lemma startswith_y:
  "startswith s ''y'' \<longleftrightarrow> (case s of [] \<Rightarrow> False | c # _ \<Rightarrow> c = CHR ''y'')"
  by (cases s) (simp_all add: startswith_def)

text \<open>
  Claim C10, as the code has it. For every yes/no prompt and every response, what decides
  is the response without its leading white space: when nothing is left (the response is
  empty or all white space) the answer is the prompt's default, and otherwise the answer
  is yes exactly when the first character left is \<^verbatim>\<open>y\<close> or \<^verbatim>\<open>Y\<close>, so that
  \<^verbatim>\<open>sure\<close> and \<^verbatim>\<open>ok\<close> decline.
\<close>

theorem get_yes_no_answer:
  assumes "inputs s = r # rs"
  shows "fst (get_yes_no prompt d s) =
    Inr (case dropWhile isspace r of [] \<Rightarrow> d | c # _ \<Rightarrow> c = CHR ''y'' \<or> c = CHR ''Y'')"
proof (cases "dropWhile isspace r")
  case Nil
  have "strip r = []" unfolding strip_def strip_with_dropWhile Nil by simp
  with assms have "fst (get_yes_no prompt d s) = Inr d"
    by (simp add: get_yes_no_def py_bind_def input_def py_return_def lower_def)
  then show ?thesis by (simp only: Nil list.case)
next
  case (Cons c t)
  have "strip r = c # rev (dropWhile isspace (rev t))"
    unfolding strip_def strip_with_dropWhile Cons by simp
  with assms have "fst (get_yes_no prompt d s) = Inr (c = CHR ''y'' \<or> c = CHR ''Y'')"
    by (simp add: get_yes_no_def py_bind_def input_def py_return_def lower_def startswith_y
        lower_char_y)
  then show ?thesis by (simp only: Cons list.case)
qed

theorem get_yes_no_answer_witness:
  "fst (get_yes_no ''Continue anyway?'' False
     \<lparr>world = (), props_file = None, inputs = [''  Yes please''], trace = []\<rparr>) = Inr True"
proof -
  have "isspace (CHR '' '')" "\<not> isspace (CHR ''Y'')" by (simp_all add: isspace_def)
  then show ?thesis
    using get_yes_no_answer [of "\<lparr>world = (), props_file = None, inputs = [''  Yes please''], trace = []\<rparr>"
      "''  Yes please''" "[]" "''Continue anyway?''" False]
    by simp
qed

text \<open>
  Claim C10 as stated fails on a response of one blank: it is not empty and its stripped,
  lowercased form does not start with \<^verbatim>\<open>y\<close>, yet the prompt with default yes answers yes.
\<close>

theorem get_yes_no_blank_counterexample:
  "'' '' \<noteq> [] \<and> \<not> startswith (lower (strip '' '')) ''y'' \<and>
   fst (get_yes_no ''Continue with this version?'' True
     \<lparr>world = (), props_file = None, inputs = ['' ''], trace = []\<rparr>) = Inr True"
  by (simp add: get_yes_no_def py_bind_def input_def py_return_def lower_def strip_def
      strip_with_def isspace_def startswith_def)

subsection \<open>Writing the version and reading it back\<close>

lemma then_pieces_Inr: "then_pieces p (Inr ps) = Inr (p # ps)"
  by (simp add: then_pieces_def)

lemma parse_template_plain:
  "CHR 0x5C \<notin> set r \<Longrightarrow> \<exists>ps. parse_template r = Inr ps \<and> (\<forall>m. expand_template ps m = r)"
proof (induction r)
  case Nil
  then show ?case by (simp add: expand_template_def)
next
  case (Cons c cs)
  then obtain ps where ps: "parse_template cs = Inr ps" "\<forall>m. expand_template ps m = cs"
    by auto
  from Cons.prems have "c \<noteq> CHR 0x5C" by auto
  then have "parse_template (c # cs) = Inr (Chars [c] # ps)"
    by (simp add: ps then_pieces_Inr)
  moreover have "\<forall>m. expand_template (Chars [c] # ps) m = c # cs"
    using ps(2) by (simp add: expand_template_def)
  ultimately show ?case by blast
qed

lemma re_sub_version_plain:
  assumes "CHR 0x5C \<notin> set r"
  shows "re_sub_version r content = Inr (re_sub_scan (\<lambda>m. r) content)"
proof -
  from parse_template_plain [OF assms] obtain ps where
    ps: "parse_template r = Inr ps" "\<forall>m. expand_template ps m = r" by blast
  then have "expand_template ps = (\<lambda>m. r)" by auto
  with ps(1) show ?thesis by (simp add: re_sub_version_def)
qed

lemma match_version_SomeD:
  assumes "match_version s = Some (tok, rest)"
  shows "s = ''version='' @ tok @ rest" "tok \<noteq> []" "\<forall>c\<in>set tok. token_char c"
    "rest = [] \<or> \<not> token_char (hd rest)"
proof -
  from assms have t: "take 8 s = ''version=''"
    and tok: "tok = takeWhile token_char (drop 8 s)"
    and rest: "rest = dropWhile token_char (drop 8 s)"
    and ne: "tok \<noteq> []"
    by (auto simp: match_version_def split: if_splits)
  have "s = take 8 s @ drop 8 s" by simp
  also have "drop 8 s = tok @ rest" unfolding tok rest by simp
  finally show "s = ''version='' @ tok @ rest" using t by simp
  show "tok \<noteq> []" by (rule ne)
  show "\<forall>c\<in>set tok. token_char c" unfolding tok by (auto dest: set_takeWhileD)
  show "rest = [] \<or> \<not> token_char (hd rest)"
    unfolding rest using hd_dropWhile [of token_char "drop 8 s"] by blast
qed

lemma takeWhile_token_append:
  assumes "\<forall>c\<in>set new. token_char c" "rest = [] \<or> \<not> token_char (hd rest)"
  shows "takeWhile token_char (new @ rest) = new" "dropWhile token_char (new @ rest) = rest"
proof -
  from assms(2) have "takeWhile token_char rest = []" "dropWhile token_char rest = rest"
    by (cases rest; auto)+
  with assms(1) show "takeWhile token_char (new @ rest) = new"
    "dropWhile token_char (new @ rest) = rest"
    by (simp_all add: takeWhile_append2 dropWhile_append2)
qed

lemma match_version_at:
  assumes "new \<noteq> []" "\<forall>c\<in>set new. token_char c" "rest = [] \<or> \<not> token_char (hd rest)"
  shows "match_version (''version='' @ new @ rest) = Some (new, rest)"
  using assms takeWhile_token_append [OF assms(2,3)] by (simp add: match_version_def)

lemma match_version_take9: "(match_version s = None) = (match_version (take 9 s) = None)"
proof -
  have a: "take 8 (take 9 s) = take 8 s" by simp
  have b: "drop 8 (take 9 s) = take 1 (drop 8 s)" by (simp add: drop_take)
  have c: "(takeWhile token_char (take (Suc 0) xs) = []) = (takeWhile token_char xs = [])" for xs
    by (cases xs) auto
  show ?thesis
    unfolding match_version_def a b by (simp add: c)
qed

lemma take_append_long: "n \<le> length a \<Longrightarrow> take n (a @ b) = take n a"
  by simp

lemma take9_version:
  "take 9 ((c # p) @ ''version='' @ x) = take 9 ((c # p) @ ''version='' @ y)"
proof -
  have "take 9 (((c # p) @ ''version='') @ z) = take 9 ((c # p) @ ''version='')" for z
    by (rule take_append_long) simp
  from this [of x] this [of y] show ?thesis by (simp only: append_assoc)
qed

lemma match_version_None_cong:
  assumes "match_version s = None" "take 9 s = take 9 s'"
  shows "match_version s' = None"
  using assms match_version_take9 [of s] match_version_take9 [of s'] by simp

lemma re_sub_scan_none:
  "re_findall_version s = [] \<Longrightarrow> re_sub_scan f s = s"
proof (induction s rule: re_findall_version.induct)
  case 1
  then show ?case by simp
next
  case (2 c cs)
  then show ?case by (cases "match_version (c # cs)") auto
qed

lemma scan_single:
  assumes new: "new \<noteq> []" "\<forall>c\<in>set new. token_char c"
  shows "re_findall_version s = [tok] \<Longrightarrow>
    \<exists>p q. s = p @ ''version='' @ tok @ q \<and>
      re_sub_scan (\<lambda>m. ''version='' @ new) s = p @ ''version='' @ new @ q \<and>
      re_search_version (p @ ''version='' @ new @ q) = Some new"
proof (induction s rule: re_findall_version.induct)
  case 1
  then show ?case by simp
next
  case (2 c cs)
  show ?case
  proof (cases "match_version (c # cs)")
    case None
    with 2 obtain p q where
      cs: "cs = p @ ''version='' @ tok @ q"
      and sub: "re_sub_scan (\<lambda>m. ''version='' @ new) cs = p @ ''version='' @ new @ q"
      and search: "re_search_version (p @ ''version='' @ new @ q) = Some new"
      by auto
    have ccs: "c # cs = (c # p) @ ''version='' @ (tok @ q)" using cs by simp
    have "take 9 (c # cs) = take 9 ((c # p) @ ''version='' @ (tok @ q))"
      by (simp only: ccs)
    also have "\<dots> = take 9 ((c # p) @ ''version='' @ (new @ q))"
      by (rule take9_version)
    finally have "take 9 (c # cs) = take 9 ((c # p) @ ''version='' @ new @ q)" .
    with None have "match_version ((c # p) @ ''version='' @ new @ q) = None"
      by (rule match_version_None_cong)
    then have "re_search_version ((c # p) @ ''version='' @ new @ q) = Some new"
      using search by simp
    moreover have "re_sub_scan (\<lambda>m. ''version='' @ new) (c # cs) = (c # p) @ ''version='' @ new @ q"
      using None sub by simp
    moreover have "c # cs = (c # p) @ ''version='' @ tok @ q" using cs by simp
    ultimately show ?thesis by blast
  next
    case (Some a)
    obtain t rest where a: "a = (t, rest)" by (cases a)
    with Some have m: "match_version (c # cs) = Some (t, rest)" by simp
    with "2.prems" have t: "t = tok" and none: "re_findall_version rest = []" by simp_all
    note d = match_version_SomeD [OF m]
    have "re_sub_scan (\<lambda>m. ''version='' @ new) (c # cs) = ''version='' @ new @ rest"
      using m none by (simp add: re_sub_scan_none)
    moreover have "match_version (''version='' @ new @ rest) = Some (new, rest)"
      using new d(4) by (rule match_version_at)
    then have "re_search_version (''version='' @ new @ rest) = Some new" by simp
    moreover have "c # cs = [] @ ''version='' @ tok @ rest" using d(1) t by simp
    ultimately show ?thesis by (metis append_Nil)
  qed
qed

lemma universal_newlines_no_cr: "CHR 0x0D \<notin> set (universal_newlines s)"
  by (induction s rule: universal_newlines.induct) auto

lemma universal_newlines_cons:
  "c \<noteq> CHR 0x0D \<Longrightarrow> universal_newlines (c # x) = c # universal_newlines x"
  by (cases x) simp_all

lemma write_newlines_append:
  "write_newlines ls (a @ b) = write_newlines ls a @ write_newlines ls b"
  by (simp add: write_newlines_def)

lemma write_newlines_id: "CHR 0x0A \<notin> set t \<Longrightarrow> write_newlines ls t = t"
  by (induction t) (auto simp: write_newlines_def)

lemma read_write_newlines:
  assumes "ls = [CHR 0x0A] \<or> ls = [CHR 0x0D, CHR 0x0A]"
  shows "CHR 0x0D \<notin> set t \<Longrightarrow> universal_newlines (write_newlines ls t) = t"
proof (induction t)
  case Nil
  then show ?case by (simp add: write_newlines_def)
next
  case (Cons c t)
  then have IH: "universal_newlines (write_newlines ls t) = t" and c: "c \<noteq> CHR 0x0D" by auto
  show ?case
  proof (cases "c = CHR 0x0A")
    case True
    from assms show ?thesis
    proof
      assume "ls = [CHR 0x0A]"
      then have "write_newlines ls (c # t) = CHR 0x0A # write_newlines ls t"
        using True by (simp add: write_newlines_def)
      then show ?thesis using IH True by (simp add: universal_newlines_cons)
    next
      assume "ls = [CHR 0x0D, CHR 0x0A]"
      then have "write_newlines ls (c # t) = CHR 0x0D # CHR 0x0A # write_newlines ls t"
        using True by (simp add: write_newlines_def)
      then show ?thesis using IH True by simp
    qed
  next
    case False
    then have "write_newlines ls (c # t) = c # write_newlines ls t"
      by (simp add: write_newlines_def)
    then show ?thesis using IH c by (simp add: universal_newlines_cons)
  qed
qed

lemma token_char_not_newline: "token_char c \<Longrightarrow> c \<noteq> CHR 0x0A \<and> c \<noteq> CHR 0x0D"
  by (simp add: token_char_def)

lemma token_no_newline:
  "\<forall>c\<in>set t. token_char c \<Longrightarrow> CHR 0x0A \<notin> set t \<and> CHR 0x0D \<notin> set t"
  using token_char_not_newline by blast

lemma get_current_version_Some:
  "props_file s = Some d \<Longrightarrow> re_search_version (universal_newlines d) = Some t \<Longrightarrow>
   get_current_version s = (Inr t, s)"
  by (simp add: get_current_version_def)

text \<open>
  Claim C2, as the code has it. Take a file whose line endings are those of the platform
  (so that reading and writing it back in text mode changes nothing), whose text holds
  exactly one match of the pattern \<^verbatim>\<open>version=\<close> followed by a token without white space,
  and a new version that is not empty and has no white space and no backslash. Then the
  write replaces the token and nothing else: the file before is \<open>pre\<close>, \<^verbatim>\<open>version=\<close>,
  the old token, \<open>post\<close>, and the file after is \<open>pre\<close>, \<^verbatim>\<open>version=\<close>, the new version,
  \<open>post\<close>. The write returns whether the new version differs from the old token, and a
  read after it returns the new version.
\<close>

theorem write_then_read:
  assumes ls: "linesep = [CHR 0x0A] \<or> linesep = [CHR 0x0D, CHR 0x0A]"
    and native: "write_newlines linesep (universal_newlines disk) = disk"
    and one: "re_findall_version (universal_newlines disk) = [tok]"
    and ne: "new \<noteq> []"
    and chars: "\<forall>c\<in>set new. token_char c \<and> c \<noteq> CHR 0x5C"
    and f: "props_file s = Some disk"
  shows "\<exists>pre post. disk = pre @ ''version='' @ tok @ post \<and>
     update_version_in_library_properties linesep new s =
       (Inr (new \<noteq> tok), s\<lparr>props_file := Some (pre @ ''version='' @ new @ post)\<rparr>) \<and>
     get_current_version (s\<lparr>props_file := Some (pre @ ''version='' @ new @ post)\<rparr>) =
       (Inr new, s\<lparr>props_file := Some (pre @ ''version='' @ new @ post)\<rparr>)"
proof -
  let ?text = "universal_newlines disk"
  let ?V = "''version=''"
  from chars have tc: "\<forall>c\<in>set new. token_char c" by blast
  from scan_single [OF ne tc one] obtain p q where
    tx: "?text = p @ ?V @ tok @ q"
    and sub: "re_sub_scan (\<lambda>m. ?V @ new) ?text = p @ ?V @ new @ q"
    and search: "re_search_version (p @ ?V @ new @ q) = Some new"
    by blast
  let ?pre = "write_newlines linesep p" and ?post = "write_newlines linesep q"
  have nocr: "CHR 0x0D \<notin> set p" "CHR 0x0D \<notin> set q"
    using universal_newlines_no_cr [of disk] unfolding tx by auto
  have tok: "\<forall>c\<in>set tok. token_char c"
  proof -
    have "re_findall_version s' = [tok] \<Longrightarrow> \<forall>c\<in>set tok. token_char c" for s'
    proof (induction s' rule: re_findall_version.induct)
      case 1
      then show ?case by simp
    next
      case (2 c cs)
      then show ?case
        by (cases "match_version (c # cs)") (auto dest: match_version_SomeD(3))
    qed
    then show ?thesis using one by blast
  qed
  have V: "write_newlines linesep ?V = ?V" by (rule write_newlines_id) simp
  have wtok: "write_newlines linesep tok = tok"
    using token_no_newline [OF tok] by (simp add: write_newlines_id)
  have wnew: "write_newlines linesep new = new"
    using token_no_newline [OF tc] by (simp add: write_newlines_id)
  have disk: "disk = ?pre @ ?V @ tok @ ?post"
    using native unfolding tx by (simp only: write_newlines_append V wtok)
  have wr: "write_newlines linesep (p @ ?V @ new @ q) = ?pre @ ?V @ new @ ?post"
    by (simp only: write_newlines_append V wnew)
  have bs: "CHR 0x5C \<notin> set (?V @ new)" using chars by auto
  have rs: "re_sub_version (?V @ new) ?text = Inr (p @ ?V @ new @ q)"
    by (simp only: re_sub_version_plain [OF bs] sub)
  have neq: "(p @ ?V @ new @ q \<noteq> ?text) = (new \<noteq> tok)"
    unfolding tx by simp
  have same: "s\<lparr>props_file := Some disk\<rparr> = s" using f by simp
  have upd: "update_version_in_library_properties linesep new s =
      (Inr (new \<noteq> tok), s\<lparr>props_file := Some (?pre @ ?V @ new @ ?post)\<rparr>)"
  proof (cases "new = tok")
    case True
    then have "update_version_in_library_properties linesep new s = (Inr False, s)"
      using f rs neq by (simp add: update_version_in_library_properties_def Let_def)
    moreover have "?pre @ ?V @ new @ ?post = disk" using True disk by simp
    ultimately show ?thesis using True same by simp
  next
    case False
    then show ?thesis
      using f rs neq wr by (simp add: update_version_in_library_properties_def Let_def)
  qed
  have "CHR 0x0D \<notin> set (p @ ?V @ new @ q)"
    using nocr token_no_newline [OF tc] by simp
  then have "universal_newlines (write_newlines linesep (p @ ?V @ new @ q)) = p @ ?V @ new @ q"
    by (rule read_write_newlines [OF ls])
  then have rd: "universal_newlines (?pre @ ?V @ new @ ?post) = p @ ?V @ new @ q"
    by (simp only: wr)
  have get: "get_current_version (s\<lparr>props_file := Some (?pre @ ?V @ new @ ?post)\<rparr>) =
      (Inr new, s\<lparr>props_file := Some (?pre @ ?V @ new @ ?post)\<rparr>)"
  proof (rule get_current_version_Some)
    show "props_file (s\<lparr>props_file := Some (?pre @ ?V @ new @ ?post)\<rparr>) =
        Some (?pre @ ?V @ new @ ?post)" by simp
    show "re_search_version (universal_newlines (?pre @ ?V @ new @ ?post)) = Some new"
      by (simp only: rd search)
  qed
  from disk upd get show ?thesis by blast
qed

theorem write_then_read_witness:
  "\<exists>pre post.
     ''name=Basicmicro\<newline>version=1.2.3\<newline>url=u\<newline>'' = pre @ ''version='' @ ''1.2.3'' @ post \<and>
     update_version_in_library_properties [CHR 0x0A] ''1.3.0''
       \<lparr>world = (), props_file = Some ''name=Basicmicro\<newline>version=1.2.3\<newline>url=u\<newline>'',
        inputs = [], trace = []\<rparr> =
       (Inr (''1.3.0'' \<noteq> ''1.2.3''),
        \<lparr>world = (), props_file = Some ''name=Basicmicro\<newline>version=1.2.3\<newline>url=u\<newline>'',
         inputs = [], trace = []\<rparr>\<lparr>props_file := Some (pre @ ''version='' @ ''1.3.0'' @ post)\<rparr>) \<and>
     get_current_version
       (\<lparr>world = (), props_file = Some ''name=Basicmicro\<newline>version=1.2.3\<newline>url=u\<newline>'',
         inputs = [], trace = []\<rparr>\<lparr>props_file := Some (pre @ ''version='' @ ''1.3.0'' @ post)\<rparr>) =
       (Inr ''1.3.0'',
        \<lparr>world = (), props_file = Some ''name=Basicmicro\<newline>version=1.2.3\<newline>url=u\<newline>'',
         inputs = [], trace = []\<rparr>\<lparr>props_file := Some (pre @ ''version='' @ ''1.3.0'' @ post)\<rparr>)"
proof (rule write_then_read)
  show "[CHR 0x0A] = [CHR 0x0A] \<or> [CHR 0x0A] = [CHR 0x0D, CHR 0x0A]" by simp
  show "write_newlines [CHR 0x0A]
      (universal_newlines ''name=Basicmicro\<newline>version=1.2.3\<newline>url=u\<newline>'') =
      ''name=Basicmicro\<newline>version=1.2.3\<newline>url=u\<newline>''"
    by code_simp
  show "re_findall_version
      (universal_newlines ''name=Basicmicro\<newline>version=1.2.3\<newline>url=u\<newline>'') = [''1.2.3'']"
    by code_simp
  show "''1.3.0'' \<noteq> []" by simp
  show "\<forall>c\<in>set ''1.3.0''. token_char c \<and> c \<noteq> CHR 0x5C"
    by (simp add: token_char_def isspace_def)
  show "props_file \<lparr>world = (), props_file = Some ''name=Basicmicro\<newline>version=1.2.3\<newline>url=u\<newline>'',
      inputs = [], trace = []\<rparr> = Some ''name=Basicmicro\<newline>version=1.2.3\<newline>url=u\<newline>''"
    by simp
qed

text \<open>
  Claim C2 as stated fails in four ways, each on a file with a single version line. A new
  version with a blank is read back only up to the blank; an empty new version is not read
  back at all (the read exits with code 1); a new version with a backslash is written as
  the replacement template expands it (here \<^verbatim>\<open>\n\<close> becomes a line feed); and with the line
  separator \<^verbatim>\<open>\n\<close>, a file with \<^verbatim>\<open>\r\n\<close> line endings has every line ending rewritten.
\<close>

theorem write_then_read_counterexample:
  "fst (get_current_version (snd (update_version_in_library_properties [CHR 0x0A] ''1.0 rc''
      \<lparr>world = (), props_file = Some ''version=1.0.0\<newline>'', inputs = [], trace = []\<rparr>))) =
     Inr ''1.0'' \<and>
   fst (get_current_version (snd (update_version_in_library_properties [CHR 0x0A] ''''
      \<lparr>world = (), props_file = Some ''version=1.0.0\<newline>'', inputs = [], trace = []\<rparr>))) =
     Inl (SystemExit 1) \<and>
   fst (get_current_version (snd (update_version_in_library_properties [CHR 0x0A]
      [CHR ''2'', CHR 0x5C, CHR ''n'']
      \<lparr>world = (), props_file = Some ''version=1.0.0\<newline>'', inputs = [], trace = []\<rparr>))) =
     Inr ''2'' \<and>
   props_file (snd (update_version_in_library_properties [CHR 0x0A] ''1.0.1''
      \<lparr>world = (),
       props_file = Some (''name=x'' @ [CHR 0x0D, CHR 0x0A] @ ''version=1.0.0'' @ [CHR 0x0D, CHR 0x0A]),
       inputs = [], trace = []\<rparr>)) =
     Some ''name=x\<newline>version=1.0.1\<newline>''"
  by code_simp

subsection \<open>Commit and push\<close>

text \<open>
  Claim C9. When the status command completes and reports nothing (its output is empty
  or white space), \<open>commit_and_push_changes\<close> returns false at once: the status command is
  the only command it issues, so nothing is added, committed or pushed, and the world is
  as that command left it.
\<close>

theorem commit_and_push_no_changes:
  assumes "sh (world s) ''git status --porcelain'' = (CompletedProcess rc out err, w)"
    and "strip out = []"
  shows "commit_and_push_changes sh commit_message s =
    (Inr False,
     s\<lparr>world := w,
       trace := trace s @ [Ran ''git status --porcelain'' (CompletedProcess rc out err)]\<rparr>)"
  using assms
  by (simp add: commit_and_push_changes_def try_except_Exception_def py_bind_def
      run_command_def py_return_def)

theorem commit_and_push_no_changes_witness:
  "commit_and_push_changes (\<lambda>w cmd. (CompletedProcess 0 ''\<newline>'' [], w)) ''Bump version to 1.2.4''
     \<lparr>world = (), props_file = Some ''version=1.2.4'', inputs = [], trace = []\<rparr> =
   (Inr False,
    \<lparr>world = (), props_file = Some ''version=1.2.4'', inputs = [],
     trace = [Ran ''git status --porcelain'' (CompletedProcess 0 ''\<newline>'' [])]\<rparr>)"
proof -
  have "strip ''\<newline>'' = []" by (simp add: strip_def strip_with_def isspace_def)
  then show ?thesis
    using commit_and_push_no_changes [of "\<lambda>w cmd. (CompletedProcess 0 ''\<newline>'' [], w)"
        "\<lparr>world = (), props_file = Some ''version=1.2.4'', inputs = [], trace = []\<rparr>"
        0 "''\<newline>''" "[]" "()" "''Bump version to 1.2.4''"]
    by simp
qed

subsection \<open>Failures of the best-effort steps\<close>

text \<open>
  Claim C3 fails when the release command exits with a code other than 0. In this run every
  step up to the release succeeds (the version is written, committed and pushed to both
  remotes) and the release command exits with 1: \<open>run_command\<close> ends the process with
  \<^verbatim>\<open>sys.exit(1)\<close>, which the \<^verbatim>\<open>except Exception\<close> clause of \<open>create_github_release\<close> does
  not catch, so the exit code is 1 and not 0.
\<close>

theorem release_failure_exits_1:
  "run (sample_shell ''gh release create'') [CHR 0x0A] ()
     (Some ''name=x\<newline>version=1.2.3\<newline>'') ['''', '''', '''', ''''] =
   (Inl (SystemExit 1),
    \<lparr>world = (), props_file = Some ''name=x\<newline>version=1.2.4\<newline>'', inputs = [],
     trace =
       [Ran ''git rev-parse --git-dir'' (CompletedProcess 0 [] []),
        Ran ''git remote -v'' (CompletedProcess 0 [] []),
        Ran ''git remote add upstream https://github.com/acidtech/basicmicro_arduino''
          (CompletedProcess 0 [] []),
        Ran ''git remote add origin https://github.com/basicmicrosupport/basicmicro_arduino''
          (CompletedProcess 0 [] []),
        Asked ''Bump type (major/minor/patch) [patch]: '' [],
        Asked ''Continue with this version? [Y/n]: '' [],
        Asked ''Commit message [Bump version to 1.2.4]: '' [],
        Ran ''git status --porcelain'' (CompletedProcess 0 '' M library.properties'' []),
        Ran ''git status --short'' (CompletedProcess 0 [] []),
        Ran ''git add .'' (CompletedProcess 0 [] []),
        Ran (''git commit -m '' @ [CHR 0x22] @ ''Bump version to 1.2.4'' @ [CHR 0x22])
          (CompletedProcess 0 [] []),
        Ran ''git push upstream main'' (CompletedProcess 0 [] []),
        Ran ''git push origin main'' (CompletedProcess 0 [] []),
        Asked ''Release notes (optional): '' [],
        Ran (''gh release create v1.2.4 --title '' @ [CHR 0x22] @ ''Release 1.2.4'' @ [CHR 0x22]
             @ '' --repo basicmicrosupport/basicmicro_arduino --generate-notes'')
          (CompletedProcess 1 [] ''failed'')]\<rparr>) \<and>
   exit_code (fst (run (sample_shell ''gh release create'') [CHR 0x0A] ()
     (Some ''name=x\<newline>version=1.2.3\<newline>'') ['''', '''', '''', ''''])) = 1"
  by code_simp

text \<open>
  Claim C7 fails when a remote has to be added and the command that adds it exits with a
  code other than 0. In this run no remote is configured and \<^verbatim>\<open>git remote add\<close> exits with
  1: again \<^verbatim>\<open>sys.exit(1)\<close> passes the \<^verbatim>\<open>except Exception\<close> clause, here of
  \<open>setup_remotes\<close>, and the run ends at once with exit code 1; no later step is reached.
\<close>

theorem remote_add_failure_exits_1:
  "run (sample_shell ''git remote add'') [CHR 0x0A] ()
     (Some ''name=x\<newline>version=1.2.3\<newline>'') ['''', '''', '''', ''''] =
   (Inl (SystemExit 1),
    \<lparr>world = (), props_file = Some ''name=x\<newline>version=1.2.3\<newline>'',
     inputs = ['''', '''', '''', ''''],
     trace =
       [Ran ''git rev-parse --git-dir'' (CompletedProcess 0 [] []),
        Ran ''git remote -v'' (CompletedProcess 0 [] []),
        Ran ''git remote add upstream https://github.com/acidtech/basicmicro_arduino''
          (CompletedProcess 1 [] ''failed'')]\<rparr>) \<and>
   exit_code (fst (run (sample_shell ''git remote add'') [CHR 0x0A] ()
     (Some ''name=x\<newline>version=1.2.3\<newline>'') ['''', '''', '''', ''''])) = 1"
  by code_simp

subsection \<open>What a computation adds to the trace\<close>

lemma quiet_return: "quiet E (py_return x)"
  by (simp add: quiet_def py_return_def)

lemma quiet_raise: "quiet E (py_raise e)"
  by (simp add: quiet_def py_raise_def)

lemma quiet_lift: "quiet E (py_lift r)"
  by (simp add: quiet_def py_lift_def)

lemma quiet_bind:
  assumes "quiet E m" "\<And>x. quiet E (f x)"
  shows "quiet E (py_bind m f)"
  unfolding quiet_def
proof
  fix s
  from assms(1) obtain evs1 where 1: "trace (snd (m s)) = trace s @ evs1" "list_all E evs1"
    unfolding quiet_def by blast
  show "\<exists>evs. trace (snd (py_bind m f s)) = trace s @ evs \<and> list_all E evs"
  proof (cases "m s")
    case (Pair r s1)
    show ?thesis
    proof (cases r)
      case (Inl e)
      with Pair 1 show ?thesis by (auto simp: py_bind_def)
    next
      case (Inr x)
      from assms(2) [of x] obtain evs2 where
        2: "trace (snd (f x s1)) = trace s1 @ evs2" "list_all E evs2"
        unfolding quiet_def by blast
      with Pair Inr 1 have "trace (snd (py_bind m f s)) = trace s @ (evs1 @ evs2)"
        "list_all E (evs1 @ evs2)" by (auto simp: py_bind_def)
      then show ?thesis by blast
    qed
  qed
qed

lemma quiet_try_except_Exception:
  assumes "quiet E body" "quiet E handler"
  shows "quiet E (try_except_Exception body handler)"
  unfolding quiet_def
proof
  fix s
  from assms(1) obtain evs1 where
    1: "trace (snd (body s)) = trace s @ evs1" "list_all E evs1"
    unfolding quiet_def by blast
  obtain r s1 where b: "body s = (r, s1)" by (cases "body s")
  from assms(2) obtain evs2 where
    2: "trace (snd (handler s1)) = trace s1 @ evs2" "list_all E evs2"
    unfolding quiet_def by blast
  show "\<exists>evs. trace (snd (try_except_Exception body handler s)) = trace s @ evs \<and> list_all E evs"
  proof (cases "\<exists>e. r = Inl e \<and> is_Exception e")
    case True
    with b 1 2 have "trace (snd (try_except_Exception body handler s)) = trace s @ (evs1 @ evs2)"
      "list_all E (evs1 @ evs2)" by (auto simp: try_except_Exception_def)
    then show ?thesis by blast
  next
    case False
    with b 1 have "trace (snd (try_except_Exception body handler s)) = trace s @ evs1"
      by (cases r) (auto simp: try_except_Exception_def)
    with 1 show ?thesis by blast
  qed
qed

lemma quiet_try_except:
  assumes "quiet E body" "quiet E handler"
  shows "quiet E (try_except body handler)"
  unfolding quiet_def
proof
  fix s
  from assms(1) obtain evs1 where
    1: "trace (snd (body s)) = trace s @ evs1" "list_all E evs1"
    unfolding quiet_def by blast
  obtain r s1 where b: "body s = (r, s1)" by (cases "body s")
  from assms(2) obtain evs2 where
    2: "trace (snd (handler s1)) = trace s1 @ evs2" "list_all E evs2"
    unfolding quiet_def by blast
  show "\<exists>evs. trace (snd (try_except body handler s)) = trace s @ evs \<and> list_all E evs"
  proof (cases r)
    case (Inl e)
    with b 1 2 have "trace (snd (try_except body handler s)) = trace s @ (evs1 @ evs2)"
      "list_all E (evs1 @ evs2)" by (auto simp: try_except_def)
    then show ?thesis by blast
  next
    case (Inr x)
    with b 1 have "trace (snd (try_except body handler s)) = trace s @ evs1"
      by (auto simp: try_except_def)
    with 1 show ?thesis by blast
  qed
qed

lemma quiet_if: "quiet E a \<Longrightarrow> quiet E b \<Longrightarrow> quiet E (if c then a else b)"
  by simp

lemma quiet_input: "(\<And>l. E (Asked prompt l)) \<Longrightarrow> quiet E (input prompt)"
  by (auto simp: quiet_def input_def split: list.splits)

lemma quiet_run_command: "(\<And>p. E (Ran cmd p)) \<Longrightarrow> quiet E (run_command sh cmd check)"
  by (auto simp: quiet_def run_command_def Let_def split: prod.splits proc.splits)

lemma quiet_get_yes_no:
  "(\<And>l. E (Asked (prompt @ '' ['' @ (if d then ''Y/n'' else ''y/N'') @ '']: '') l)) \<Longrightarrow>
   quiet E (get_yes_no prompt d)"
  unfolding get_yes_no_def Let_def
  by (intro quiet_bind quiet_input quiet_if quiet_return) auto

lemma quiet_get_current_version: "quiet E get_current_version"
  by (auto simp: quiet_def get_current_version_def split: option.splits)

lemma quiet_update_version: "quiet E (update_version_in_library_properties ls v)"
  by (auto simp: quiet_def update_version_in_library_properties_def Let_def
      split: option.splits sum.splits)

lemmas quiet_intros =
  quiet_return quiet_raise quiet_lift quiet_bind quiet_try_except_Exception quiet_try_except
  quiet_if quiet_input quiet_run_command quiet_get_yes_no quiet_get_current_version
  quiet_update_version

lemma keeps_file_return: "keeps_file (py_return x)"
  by (simp add: keeps_file_def py_return_def)

lemma keeps_file_raise: "keeps_file (py_raise e)"
  by (simp add: keeps_file_def py_raise_def)

lemma keeps_file_lift: "keeps_file (py_lift r)"
  by (simp add: keeps_file_def py_lift_def)

lemma keeps_file_bind:
  assumes "keeps_file m" "\<And>x. keeps_file (f x)"
  shows "keeps_file (py_bind m f)"
  unfolding keeps_file_def
proof
  fix s
  obtain r s1 where m: "m s = (r, s1)" by (cases "m s")
  with assms(1) have 1: "props_file s1 = props_file s" by (auto simp: keeps_file_def dest: spec [of _ s])
  show "props_file (snd (py_bind m f s)) = props_file s"
  proof (cases r)
    case (Inl e)
    with m 1 show ?thesis by (simp add: py_bind_def)
  next
    case (Inr x)
    from assms(2) [of x] have "props_file (snd (f x s1)) = props_file s1"
      by (simp add: keeps_file_def)
    with m Inr 1 show ?thesis by (simp add: py_bind_def)
  qed
qed

lemma keeps_file_try_except_Exception:
  assumes "keeps_file body" "keeps_file handler"
  shows "keeps_file (try_except_Exception body handler)"
  unfolding keeps_file_def
proof
  fix s
  obtain r s1 where b: "body s = (r, s1)" by (cases "body s")
  with assms(1) have 1: "props_file s1 = props_file s"
    by (auto simp: keeps_file_def dest: spec [of _ s])
  from assms(2) have 2: "props_file (snd (handler s1)) = props_file s1"
    by (simp add: keeps_file_def)
  from b 1 2 show "props_file (snd (try_except_Exception body handler s)) = props_file s"
    by (cases r) (auto simp: try_except_Exception_def)
qed

lemma keeps_file_try_except:
  assumes "keeps_file body" "keeps_file handler"
  shows "keeps_file (try_except body handler)"
  unfolding keeps_file_def
proof
  fix s
  obtain r s1 where b: "body s = (r, s1)" by (cases "body s")
  with assms(1) have 1: "props_file s1 = props_file s"
    by (auto simp: keeps_file_def dest: spec [of _ s])
  from assms(2) have 2: "props_file (snd (handler s1)) = props_file s1"
    by (simp add: keeps_file_def)
  from b 1 2 show "props_file (snd (try_except body handler s)) = props_file s"
    by (cases r) (auto simp: try_except_def)
qed

lemma keeps_file_if: "keeps_file a \<Longrightarrow> keeps_file b \<Longrightarrow> keeps_file (if c then a else b)"
  by simp

lemma keeps_file_input: "keeps_file (input prompt)"
  by (auto simp: keeps_file_def input_def split: list.splits)

lemma keeps_file_run_command: "keeps_file (run_command sh cmd check)"
  by (auto simp: keeps_file_def run_command_def Let_def split: prod.splits proc.splits)

lemma keeps_file_get_yes_no: "keeps_file (get_yes_no prompt d)"
  unfolding get_yes_no_def Let_def
  by (intro keeps_file_bind keeps_file_input keeps_file_if keeps_file_return)

lemma keeps_file_get_current_version: "keeps_file get_current_version"
  by (auto simp: keeps_file_def get_current_version_def split: option.splits)

lemmas keeps_file_intros =
  keeps_file_return keeps_file_raise keeps_file_lift keeps_file_bind
  keeps_file_try_except_Exception keeps_file_try_except keeps_file_if keeps_file_input
  keeps_file_run_command keeps_file_get_yes_no keeps_file_get_current_version

lemma stops_quiet: "quiet (\<lambda>e. \<not> X e) m \<Longrightarrow> stops fr X ex m"
  unfolding quiet_def stops_def by blast

lemma stopsD:
  "stops fr X ex m \<Longrightarrow>
   \<exists>evs. trace (snd (m s)) = trace s @ evs \<and>
     (list_all (\<lambda>e. \<not> X e) evs \<or>
      (list_all (\<lambda>e. \<not> X e) (butlast evs) \<and> fst (m s) = Inl ex \<and>
       (fr \<longrightarrow> props_file (snd (m s)) = props_file s)))"
  by (simp add: stops_def)

lemma stops_bind:
  fixes m :: "('w, 'a) py" and f :: "'a \<Rightarrow> ('w, 'b) py"
  assumes m: "stops fr X ex m" and kf: "fr \<Longrightarrow> keeps_file m" and f: "\<And>x. stops fr X ex (f x)"
  shows "stops fr X ex (py_bind m f)"
  unfolding stops_def
proof
  fix s :: "'w state"
  from stopsD [OF m, of s] obtain evs1 where
    t1: "trace (snd (m s)) = trace s @ evs1"
    and c1: "list_all (\<lambda>e. \<not> X e) evs1 \<or>
      (list_all (\<lambda>e. \<not> X e) (butlast evs1) \<and> fst (m s) = Inl ex \<and>
       (fr \<longrightarrow> props_file (snd (m s)) = props_file s))"
    by blast
  obtain r s1 where ms: "m s = (r, s1)" by (cases "m s")
  show "\<exists>evs. trace (snd (py_bind m f s)) = trace s @ evs \<and>
     (list_all (\<lambda>e. \<not> X e) evs \<or>
      (list_all (\<lambda>e. \<not> X e) (butlast evs) \<and> fst (py_bind m f s) = Inl ex \<and>
       (fr \<longrightarrow> props_file (snd (py_bind m f s)) = props_file s)))"
  proof (cases r)
    case (Inl e)
    with ms have "py_bind m f s = (Inl e, s1)" by (simp add: py_bind_def)
    with ms Inl t1 c1 show ?thesis by (intro exI [of _ evs1]) auto
  next
    case (Inr x)
    with ms c1 have q1: "list_all (\<lambda>e. \<not> X e) evs1" by auto
    from ms t1 have t1': "trace s1 = trace s @ evs1" by simp
    from ms Inr have pb: "py_bind m f s = f x s1" by (simp add: py_bind_def)
    from stopsD [OF f, of x s1] obtain evs2 where
      t2: "trace (snd (f x s1)) = trace s1 @ evs2"
      and c2: "list_all (\<lambda>e. \<not> X e) evs2 \<or>
         (list_all (\<lambda>e. \<not> X e) (butlast evs2) \<and> fst (f x s1) = Inl ex \<and>
          (fr \<longrightarrow> props_file (snd (f x s1)) = props_file s1))"
      by blast
    have fl: "fr \<Longrightarrow> props_file s1 = props_file s"
      using kf ms by (auto simp: keeps_file_def dest: spec [of _ s])
    have tr: "trace (snd (py_bind m f s)) = trace s @ (evs1 @ evs2)"
      using pb t1' t2 by simp
    from c2 show ?thesis
    proof
      assume "list_all (\<lambda>e. \<not> X e) evs2"
      with q1 tr show ?thesis by (intro exI [of _ "evs1 @ evs2"]) simp
    next
      assume a: "list_all (\<lambda>e. \<not> X e) (butlast evs2) \<and> fst (f x s1) = Inl ex \<and>
          (fr \<longrightarrow> props_file (snd (f x s1)) = props_file s1)"
      show ?thesis
      proof (cases "evs2 = []")
        case True
        with q1 tr show ?thesis by (intro exI [of _ "evs1 @ evs2"]) simp
      next
        case False
        then have "butlast (evs1 @ evs2) = evs1 @ butlast evs2" by (simp add: butlast_append)
        with a q1 tr pb fl show ?thesis by (intro exI [of _ "evs1 @ evs2"]) auto
      qed
    qed
  qed
qed

lemma stops_bind_quiet:
  assumes "quiet (\<lambda>e. \<not> X e) m" "fr \<Longrightarrow> keeps_file m" "\<And>x. stops fr X ex (f x)"
  shows "stops fr X ex (py_bind m f)"
proof (rule stops_bind)
  show "stops fr X ex m" using assms(1) by (rule stops_quiet)
  show "fr \<Longrightarrow> keeps_file m" by (rule assms(2))
  show "\<And>x. stops fr X ex (f x)" by (rule assms(3))
qed

lemma stops_if: "stops fr X ex a \<Longrightarrow> stops fr X ex b \<Longrightarrow> stops fr X ex (if c then a else b)"
  by simp



lemma get_yes_no_eof: "inputs s = [] \<Longrightarrow> get_yes_no prompt d s = (Inl EOFError, s)"
  by (simp add: get_yes_no_def Let_def py_bind_def input_def)

lemma get_yes_no_result:
  assumes "inputs s = r # rs"
  shows "get_yes_no prompt d s =
    (Inr (\<not> declines d r),
     s\<lparr>inputs := rs,
       trace := trace s @ [Asked (prompt @ '' ['' @ (if d then ''Y/n'' else ''y/N'') @ '']: '') r]\<rparr>)"
proof (cases "dropWhile isspace r")
  case Nil
  have "strip r = []" unfolding strip_def strip_with_dropWhile Nil by simp
  moreover have "declines d r = (\<not> d)" by (simp only: declines_def Nil list.case)
  ultimately show ?thesis using assms
    by (simp add: get_yes_no_def Let_def py_bind_def input_def py_return_def lower_def)
next
  case (Cons c t)
  have "strip r = c # rev (dropWhile isspace (rev t))"
    unfolding strip_def strip_with_dropWhile Cons by simp
  moreover have "declines d r = (c \<noteq> CHR ''y'' \<and> c \<noteq> CHR ''Y'')"
    by (simp only: declines_def Cons list.case)
  ultimately show ?thesis using assms
    by (simp add: get_yes_no_def Let_def py_bind_def input_def py_return_def lower_def
        startswith_y lower_char_y)
qed

lemma stops_ask:
  fixes rest :: "('w, 'a) py"
  assumes X: "\<And>l. X (Asked (prompt @ '' ['' @ (if d then ''Y/n'' else ''y/N'') @ '']: '') l)
      \<Longrightarrow> declines d l"
    and rest: "quiet (\<lambda>e. \<not> X e) rest"
  shows "stops fr X (SystemExit k)
    (py_bind (get_yes_no prompt d) (\<lambda>yes. if \<not> yes then py_raise (SystemExit k) else rest))"
  unfolding stops_def
proof
  fix s :: "'w state"
  let ?m = "py_bind (get_yes_no prompt d)
      (\<lambda>yes. if \<not> yes then py_raise (SystemExit k) else rest)"
  let ?p = "prompt @ '' ['' @ (if d then ''Y/n'' else ''y/N'') @ '']: ''"
  show "\<exists>evs. trace (snd (?m s)) = trace s @ evs \<and>
     (list_all (\<lambda>e. \<not> X e) evs \<or>
      (list_all (\<lambda>e. \<not> X e) (butlast evs) \<and> fst (?m s) = Inl (SystemExit k) \<and>
       (fr \<longrightarrow> props_file (snd (?m s)) = props_file s)))"
  proof (cases "inputs s")
    case Nil
    then have "?m s = (Inl EOFError, s)" by (simp add: py_bind_def get_yes_no_eof)
    then show ?thesis by (intro exI [of _ "[]"]) simp
  next
    case (Cons r rs)
    let ?s1 = "s\<lparr>inputs := rs, trace := trace s @ [Asked ?p r]\<rparr>"
    have g: "get_yes_no prompt d s = (Inr (\<not> declines d r), ?s1)"
      using Cons by (rule get_yes_no_result)
    show ?thesis
    proof (cases "declines d r")
      case True
      with g have "?m s = (Inl (SystemExit k), ?s1)" by (simp add: py_bind_def py_raise_def)
      then show ?thesis by (intro exI [of _ "[Asked ?p r]"]) simp
    next
      case False
      with X have nx: "\<not> X (Asked ?p r)" by blast
      from False g have ms: "?m s = rest ?s1" by (simp add: py_bind_def)
      from rest obtain evs2 where 2: "trace (snd (rest ?s1)) = trace ?s1 @ evs2"
        "list_all (\<lambda>e. \<not> X e) evs2" unfolding quiet_def by blast
      with nx ms show ?thesis by (intro exI [of _ "Asked ?p r # evs2"]) simp
    qed
  qed
qed

lemma stops_check:
  fixes rest :: "('w, 'a) py"
  assumes X: "\<And>l. X (Asked ''Continue anyway? [y/N]: '' l) \<Longrightarrow> declines False l"
    and rest: "quiet (\<lambda>e. \<not> X e) rest"
  shows "stops fr X (SystemExit 1)
    (py_bind check_arduino_library_format
       (\<lambda>ok. if \<not> ok then py_raise (SystemExit 1) else rest))"
  unfolding stops_def
proof
  fix s :: "'w state"
  let ?m = "py_bind check_arduino_library_format
      (\<lambda>ok. if \<not> ok then py_raise (SystemExit 1) else rest)"
  let ?p = "''Continue anyway? [y/N]: ''"
  have quiet_rest: "\<exists>evs2. trace (snd (rest s')) = trace s' @ evs2 \<and>
      list_all (\<lambda>e. \<not> X e) evs2" for s'
    using rest unfolding quiet_def by blast
  show "\<exists>evs. trace (snd (?m s)) = trace s @ evs \<and>
     (list_all (\<lambda>e. \<not> X e) evs \<or>
      (list_all (\<lambda>e. \<not> X e) (butlast evs) \<and> fst (?m s) = Inl (SystemExit 1) \<and>
       (fr \<longrightarrow> props_file (snd (?m s)) = props_file s)))"
  proof (cases "props_file s")
    case (Some d)
    then have "?m s = rest s"
      by (simp add: py_bind_def check_arduino_library_format_def py_return_def)
    with quiet_rest [of s] show ?thesis by auto
  next
    case None
    show ?thesis
    proof (cases "inputs s")
      case Nil
      with None have "?m s = (Inl EOFError, s)"
        by (simp add: py_bind_def check_arduino_library_format_def get_yes_no_eof)
      then show ?thesis by (intro exI [of _ "[]"]) simp
    next
      case (Cons r rs)
      let ?s1 = "s\<lparr>inputs := rs, trace := trace s @ [Asked ?p r]\<rparr>"
      have g: "get_yes_no ''Continue anyway?'' False s = (Inr (\<not> declines False r), ?s1)"
        using get_yes_no_result [OF Cons, of "''Continue anyway?''" False] by simp
      show ?thesis
      proof (cases "declines False r")
        case True
        with g None have "?m s = (Inl (SystemExit 1), ?s1)"
          by (simp add: py_bind_def py_raise_def check_arduino_library_format_def py_return_def)
        then show ?thesis by (intro exI [of _ "[Asked ?p r]"]) simp
      next
        case False
        with X have nx: "\<not> X (Asked ?p r)" by blast
        from False g None have ms: "?m s = rest ?s1"
          by (simp add: py_bind_def check_arduino_library_format_def py_return_def)
        from quiet_rest [of ?s1] obtain evs2 where
          "trace (snd (rest ?s1)) = trace ?s1 @ evs2" "list_all (\<lambda>e. \<not> X e) evs2" by blast
        with nx ms show ?thesis by (intro exI [of _ "Asked ?p r # evs2"]) simp
      qed
    qed
  qed
qed

lemma quiet_check_format:
  assumes "\<And>l. E (Asked ''Continue anyway? [y/N]: '' l)"
  shows "quiet E check_arduino_library_format"
proof -
  have g: "quiet E (py_bind (get_yes_no ''Continue anyway?'' False)
      (\<lambda>yes. if \<not> yes then py_return False else py_return True))"
    using assms by (intro quiet_intros) simp_all
  have r: "quiet E (py_return True)" by (rule quiet_return)
  show ?thesis
    unfolding quiet_def
  proof
    fix s
    show "\<exists>evs. trace (snd (check_arduino_library_format s)) = trace s @ evs \<and> list_all E evs"
      using g r unfolding quiet_def check_arduino_library_format_def Let_def
      by (cases "props_file s") auto
  qed
qed

lemma keeps_file_check_format: "keeps_file (check_arduino_library_format :: ('a, bool) py)"
proof -
  have g: "keeps_file (py_bind (get_yes_no ''Continue anyway?'' False)
      (\<lambda>yes. if \<not> yes then py_return False else py_return True) :: ('a, bool) py)"
    by (intro keeps_file_intros)
  show ?thesis
    unfolding keeps_file_def
  proof
    fix s :: "'a state"
    from g have "props_file (snd (py_bind (get_yes_no ''Continue anyway?'' False)
        (\<lambda>yes. if \<not> yes then py_return False else py_return True) s)) = props_file s"
      unfolding keeps_file_def by blast
    then show "props_file (snd (check_arduino_library_format s)) = props_file s"
      by (simp add: check_arduino_library_format_def Let_def py_return_def)
  qed
qed

lemma quiet_setup_remotes:
  assumes "\<And>c p. take 11 c = ''git remote '' \<Longrightarrow> E (Ran c p)"
  shows "quiet E (setup_remotes sh)"
  unfolding setup_remotes_def Let_def
  by (intro quiet_intros assms) simp_all

lemma keeps_file_setup_remotes: "keeps_file (setup_remotes sh)"
  unfolding setup_remotes_def Let_def by (intro keeps_file_intros)

lemma quiet_create_github_release:
  assumes "\<And>c p. take 3 c = ''gh '' \<Longrightarrow> E (Ran c p)"
  shows "quiet E (create_github_release sh v notes)"
  unfolding create_github_release_def Let_def
  by (intro quiet_intros assms) simp_all

lemma quiet_commit_and_push:
  assumes "\<And>c p. E (Ran c p)"
  shows "quiet E (commit_and_push_changes sh msg)"
  unfolding commit_and_push_changes_def
  by (intro quiet_intros assms)

subsection \<open>The two confirmation prompts\<close>

lemma main_stops_version:
  "stops True (declined ''Continue with this version? [Y/n]: '' True) (SystemExit 0) (main sh ls)"
  unfolding main_def Let_def
  apply (rule stops_bind_quiet)
    apply (intro quiet_intros; simp add: declined_def)
   apply (intro keeps_file_intros)
  apply (rule stops_bind_quiet)
    apply (rule quiet_check_format; simp add: declined_def)
   apply (rule keeps_file_check_format)
  apply (rule stops_if)
   apply (rule stops_quiet, rule quiet_raise)
  apply (rule stops_bind_quiet)
    apply (rule quiet_setup_remotes; simp add: declined_def)
   apply (rule keeps_file_setup_remotes)
  apply (rule stops_bind_quiet)
    apply (rule quiet_get_current_version)
   apply (rule keeps_file_get_current_version)
  apply (rule stops_bind_quiet)
    apply (rule quiet_input; simp add: declined_def)
   apply (rule keeps_file_input)
  apply (rule stops_bind_quiet)
    apply (rule quiet_lift)
   apply (rule keeps_file_lift)
  apply (rule stops_ask)
   apply (simp add: declined_def)
  apply (intro quiet_intros quiet_commit_and_push quiet_create_github_release;
      simp add: declined_def)
  done

lemma main_stops_format:
  "stops True (declined ''Continue anyway? [y/N]: '' False) (SystemExit 1) (main sh ls)"
  unfolding main_def Let_def
  apply (rule stops_bind_quiet)
    apply (intro quiet_intros; simp add: declined_def)
   apply (intro keeps_file_intros)
  apply (rule stops_check)
   apply (simp add: declined_def)
  apply (intro quiet_intros quiet_setup_remotes quiet_commit_and_push
      quiet_create_github_release; simp add: declined_def)
  done

subsection \<open>Runs from a given file\<close>

lemma stops_append:
  assumes "list_all (\<lambda>a. \<not> X a) evs1"
    and "list_all (\<lambda>a. \<not> X a) evs2 \<or> (list_all (\<lambda>a. \<not> X a) (butlast evs2) \<and> Q)"
  shows "list_all (\<lambda>a. \<not> X a) (evs1 @ evs2) \<or>
     (list_all (\<lambda>a. \<not> X a) (butlast (evs1 @ evs2)) \<and> Q)"
proof (cases "evs2 = []")
  case True
  with assms(1) show ?thesis by simp
next
  case False
  then have "butlast (evs1 @ evs2) = evs1 @ butlast evs2" by (simp add: butlast_append)
  with assms show ?thesis by auto
qed

lemma stops_at_stops: "stops fr X ex m \<Longrightarrow> stops_at F fr X ex m"
  using stopsD [of fr X ex m] unfolding stops_at_def by blast

lemma stops_at_if:
  "stops_at F fr X ex a \<Longrightarrow> stops_at F fr X ex b \<Longrightarrow> stops_at F fr X ex (if c then a else b)"
  by simp

lemma stops_at_bind_quiet:
  fixes m :: "('w, 'a) py" and f :: "'a \<Rightarrow> ('w, 'b) py"
  assumes q: "quiet (\<lambda>a. \<not> X a) m" and kf: "keeps_file m"
    and f: "\<And>x. stops_at F fr X ex (f x)"
  shows "stops_at F fr X ex (py_bind m f)"
  unfolding stops_at_def
proof (intro allI impI)
  fix s :: "'w state"
  assume F: "props_file s = F"
  from q obtain evs1 where t1: "trace (snd (m s)) = trace s @ evs1"
    and q1: "list_all (\<lambda>a. \<not> X a) evs1"
    unfolding quiet_def by blast
  from kf have k1: "props_file (snd (m s)) = props_file s" by (simp add: keeps_file_def)
  obtain r s1 where ms: "m s = (r, s1)" by (cases "m s")
  show "\<exists>evs. trace (snd (py_bind m f s)) = trace s @ evs \<and>
     (list_all (\<lambda>a. \<not> X a) evs \<or>
      (list_all (\<lambda>a. \<not> X a) (butlast evs) \<and> fst (py_bind m f s) = Inl ex \<and>
       (fr \<longrightarrow> props_file (snd (py_bind m f s)) = props_file s)))"
  proof (cases r)
    case (Inl e)
    with ms have "py_bind m f s = (Inl e, s1)" by (simp add: py_bind_def)
    with ms t1 q1 show ?thesis by (intro exI [of _ evs1]) simp
  next
    case (Inr x)
    with ms have pb: "py_bind m f s = f x s1" by (simp add: py_bind_def)
    from ms t1 k1 F have t1': "trace s1 = trace s @ evs1" and F1: "props_file s1 = F" by simp_all
    from f [of x] F1 obtain evs2 where
      t2: "trace (snd (f x s1)) = trace s1 @ evs2"
      and c2: "list_all (\<lambda>a. \<not> X a) evs2 \<or>
         (list_all (\<lambda>a. \<not> X a) (butlast evs2) \<and>
          (fst (f x s1) = Inl ex \<and> (fr \<longrightarrow> props_file (snd (f x s1)) = props_file s1)))"
      unfolding stops_at_def by blast
    have "trace (snd (py_bind m f s)) = trace s @ (evs1 @ evs2)"
      using pb t1' t2 by simp
    moreover from stops_append [OF q1 c2] F F1 pb
    have "list_all (\<lambda>a. \<not> X a) (evs1 @ evs2) \<or>
       (list_all (\<lambda>a. \<not> X a) (butlast (evs1 @ evs2)) \<and> fst (py_bind m f s) = Inl ex \<and>
        (fr \<longrightarrow> props_file (snd (py_bind m f s)) = props_file s))"
      by auto
    ultimately show ?thesis by blast
  qed
qed

lemma stops_at_version:
  fixes f :: "string \<Rightarrow> ('w, 'b) py"
  assumes "\<And>v. re_search_version (universal_newlines disk) = Some v \<Longrightarrow> stops fr X ex (f v)"
  shows "stops_at (Some disk) fr X ex (py_bind get_current_version f)"
  unfolding stops_at_def
proof (intro allI impI)
  fix s :: "'w state"
  let ?m = "py_bind get_current_version f"
  assume F: "props_file s = Some disk"
  show "\<exists>evs. trace (snd (?m s)) = trace s @ evs \<and>
     (list_all (\<lambda>a. \<not> X a) evs \<or>
      (list_all (\<lambda>a. \<not> X a) (butlast evs) \<and> fst (?m s) = Inl ex \<and>
       (fr \<longrightarrow> props_file (snd (?m s)) = props_file s)))"
  proof (cases "re_search_version (universal_newlines disk)")
    case None
    with F have "?m s = (Inl (SystemExit 1), s)"
      by (simp add: py_bind_def get_current_version_def)
    then show ?thesis by (intro exI [of _ "[]"]) simp
  next
    case (Some v)
    with F have "?m s = f v s"
      by (simp add: py_bind_def get_current_version_def)
    with stopsD [OF assms [OF Some], of s] show ?thesis by simp
  qed
qed

lemma stops_at_run:
  assumes st: "stops_at F fr X ex (main sh ls)"
    and run: "run sh ls w F ins = (r, s')"
    and ev: "a \<in> set (trace s')" "X a"
  shows "r = Inl ex" "fr \<Longrightarrow> props_file s' = F" "last (trace s') = a"
proof -
  let ?s = "\<lparr>world = w, props_file = F, inputs = ins, trace = []\<rparr>"
  from run have m: "main sh ls ?s = (r, s')" by (simp add: run_def)
  have "props_file ?s = F" by simp
  with st have "\<exists>evs. trace (snd (main sh ls ?s)) = trace ?s @ evs \<and>
     (list_all (\<lambda>a. \<not> X a) evs \<or>
      (list_all (\<lambda>a. \<not> X a) (butlast evs) \<and> fst (main sh ls ?s) = Inl ex \<and>
       (fr \<longrightarrow> props_file (snd (main sh ls ?s)) = props_file ?s)))"
    unfolding stops_at_def by blast
  with m have c: "list_all (\<lambda>a. \<not> X a) (trace s') \<or>
      (list_all (\<lambda>a. \<not> X a) (butlast (trace s')) \<and> r = Inl ex \<and> (fr \<longrightarrow> props_file s' = F))"
    by simp
  from ev have n: "\<not> list_all (\<lambda>a. \<not> X a) (trace s')" by (auto simp: list_all_iff)
  with c have b: "list_all (\<lambda>a. \<not> X a) (butlast (trace s'))" and r: "r = Inl ex"
    and p: "fr \<longrightarrow> props_file s' = F" by blast+
  show "r = Inl ex" by (rule r)
  show "fr \<Longrightarrow> props_file s' = F" using p by simp
  from ev have ne: "trace s' \<noteq> []" by auto
  then have "trace s' = butlast (trace s') @ [last (trace s')]" by simp
  with ev(1) have "a \<in> set (butlast (trace s')) \<or> a = last (trace s')"
    by (metis Un_iff empty_iff empty_set insert_iff list.simps(15) set_append)
  with b ev(2) show "last (trace s') = a" by (auto simp: list_all_iff)
qed

lemma stops_run:
  assumes "stops fr X ex (main sh ls)"
    and "run sh ls w F ins = (r, s')"
    and "a \<in> set (trace s')" "X a"
  shows "r = Inl ex" "fr \<Longrightarrow> props_file s' = F" "last (trace s') = a"
  using stops_at_run [OF stops_at_stops [OF assms(1)] assms(2-4)] by blast+

subsection \<open>A bump that fails\<close>

lemma stops_input_lift:
  fixes rest :: "string \<Rightarrow> 'b \<Rightarrow> ('w, 'c) py"
  assumes X: "\<And>l. X (Asked p l) \<Longrightarrow> g l = Inl ex"
    and rest: "\<And>l y. quiet (\<lambda>a. \<not> X a) (rest l y)"
  shows "stops fr X ex (py_bind (input p) (\<lambda>l. py_bind (py_lift (g l)) (rest l)))"
  unfolding stops_def
proof
  fix s :: "'w state"
  let ?m = "py_bind (input p) (\<lambda>l. py_bind (py_lift (g l)) (rest l))"
  show "\<exists>evs. trace (snd (?m s)) = trace s @ evs \<and>
     (list_all (\<lambda>a. \<not> X a) evs \<or>
      (list_all (\<lambda>a. \<not> X a) (butlast evs) \<and> fst (?m s) = Inl ex \<and>
       (fr \<longrightarrow> props_file (snd (?m s)) = props_file s)))"
  proof (cases "inputs s")
    case Nil
    then have "?m s = (Inl EOFError, s)" by (simp add: py_bind_def input_def)
    then show ?thesis by (intro exI [of _ "[]"]) simp
  next
    case (Cons l ls)
    let ?s1 = "s\<lparr>inputs := ls, trace := trace s @ [Asked p l]\<rparr>"
    from Cons have i: "input p s = (Inr l, ?s1)" by (simp add: input_def)
    show ?thesis
    proof (cases "g l")
      case (Inl e)
      with i have ms: "?m s = (Inl e, ?s1)" by (simp add: py_bind_def py_lift_def)
      show ?thesis
      proof (cases "X (Asked p l)")
        case True
        with X Inl have "e = ex" by simp
        with ms show ?thesis by (intro exI [of _ "[Asked p l]"]) simp
      next
        case False
        with ms show ?thesis by (intro exI [of _ "[Asked p l]"]) simp
      qed
    next
      case (Inr y)
      with X have nx: "\<not> X (Asked p l)" by auto
      from Inr i have ms: "?m s = rest l y ?s1" by (simp add: py_bind_def py_lift_def)
      from rest [of l y] obtain evs2 where "trace (snd (rest l y ?s1)) = trace ?s1 @ evs2"
        "list_all (\<lambda>a. \<not> X a) evs2" unfolding quiet_def by blast
      with nx ms show ?thesis by (intro exI [of _ "Asked p l # evs2"]) simp
    qed
  qed
qed

lemma main_stops_bump:
  assumes v: "re_search_version (universal_newlines disk) = Some v"
  shows "stops_at (Some disk) True
     (\<lambda>a. \<exists>l. a = Asked ''Bump type (major/minor/patch) [patch]: '' l \<and>
        bump_version v (if strip l \<noteq> [] then strip l else ''patch'') = Inl ValueError)
     ValueError (main sh ls)"
  unfolding main_def Let_def
  apply (rule stops_at_bind_quiet)
    apply (intro quiet_intros; simp)
   apply (intro keeps_file_intros)
  apply (rule stops_at_bind_quiet)
    apply (rule quiet_check_format; simp)
   apply (rule keeps_file_check_format)
  apply (rule stops_at_if)
   apply (rule stops_at_stops, rule stops_quiet, rule quiet_raise)
  apply (rule stops_at_bind_quiet)
    apply (rule quiet_setup_remotes; simp)
   apply (rule keeps_file_setup_remotes)
  apply (rule stops_at_version)
  apply (rule stops_input_lift)
   apply (simp add: v)
  apply (intro quiet_intros quiet_commit_and_push quiet_create_github_release; simp)
  done

lemma bump_failure_aborts:
  assumes run: "run sh ls w (Some disk) ins = (r, s')"
    and v: "re_search_version (universal_newlines disk) = Some v"
    and asked: "Asked ''Bump type (major/minor/patch) [patch]: '' line \<in> set (trace s')"
    and fails: "bump_version v (if strip line \<noteq> [] then strip line else ''patch'') = Inl ValueError"
  shows "r = Inl ValueError" "props_file s' = Some disk"
    "last (trace s') = Asked ''Bump type (major/minor/patch) [patch]: '' line"
proof -
  let ?X = "\<lambda>a. \<exists>l. a = Asked ''Bump type (major/minor/patch) [patch]: '' l \<and>
        bump_version v (if strip l \<noteq> [] then strip l else ''patch'') = Inl ValueError"
  have X: "?X (Asked ''Bump type (major/minor/patch) [patch]: '' line)" using fails by simp
  note * = stops_at_run [OF main_stops_bump [OF v] run asked X]
  show "r = Inl ValueError" by (rule *(1))
  show "props_file s' = Some disk" by (rule *(2)) simp
  show "last (trace s') = Asked ''Bump type (major/minor/patch) [patch]: '' line" by (rule *(3))
qed

subsection \<open>What a computation can raise\<close>













subsection \<open>Runs that cannot get past the read\<close>








subsection \<open>What the write returns\<close>






subsection \<open>The order of the pushes\<close>
















subsection \<open>A push to upstream that fails\<close>



subsection \<open>Declined confirmations\<close>

lemma main_prompts:
  "quiet (\<lambda>a. case a of
       Ran c p \<Rightarrow> True
     | Asked q l \<Rightarrow>
         q = ''Continue anyway? [y/N]: '' \<or>
         q = ''Bump type (major/minor/patch) [patch]: '' \<or>
         q = ''Continue with this version? [Y/n]: '' \<or>
         (\<exists>v. q = ''Commit message [Bump version to '' @ v @ '']: '') \<or>
         q = ''Release notes (optional): '')
     (main sh ls)"
  unfolding main_def Let_def
  by (intro quiet_intros quiet_check_format quiet_setup_remotes quiet_commit_and_push
      quiet_create_github_release; simp)

text \<open>
  Claim C8, as the code has it. The script asks two yes/no questions, \<^verbatim>\<open>Continue anyway?\<close>
  (default no) when \<^verbatim>\<open>library.properties\<close> is missing and
  \<^verbatim>\<open>Continue with this version?\<close> (default yes) before it writes; every other prompt asks
  for a text. In every run, a decline of either question (a response that \<open>get_yes_no\<close>
  takes for no) ends the process at once with \<^verbatim>\<open>library.properties\<close> as it was before
  the run: with exit code 0 at the version confirmation, but with exit code 1 at
  \<^verbatim>\<open>Continue anyway?\<close>.
\<close>

theorem declined_prompt_exits:
  assumes "run sh linesep w f ins = (r, s')"
    and "Asked prompt response \<in> set (trace s')"
  shows "(prompt = ''Continue with this version? [Y/n]: '' \<and> declines True response \<longrightarrow>
            r = Inl (SystemExit 0) \<and> exit_code r = 0 \<and> props_file s' = f \<and>
            last (trace s') = Asked prompt response) \<and>
         (prompt = ''Continue anyway? [y/N]: '' \<and> declines False response \<longrightarrow>
            r = Inl (SystemExit 1) \<and> exit_code r = 1 \<and> props_file s' = f \<and>
            last (trace s') = Asked prompt response) \<and>
         (prompt = ''Continue anyway? [y/N]: '' \<or>
          prompt = ''Bump type (major/minor/patch) [patch]: '' \<or>
          prompt = ''Continue with this version? [Y/n]: '' \<or>
          (\<exists>v. prompt = ''Commit message [Bump version to '' @ v @ '']: '') \<or>
          prompt = ''Release notes (optional): '')"
proof (intro conjI impI)
  assume a: "prompt = ''Continue with this version? [Y/n]: '' \<and> declines True response"
  then have "declined ''Continue with this version? [Y/n]: '' True (Asked prompt response)"
    by (simp add: declined_def)
  note * = stops_run [OF main_stops_version assms(1) assms(2) this]
  from *(1) show "r = Inl (SystemExit 0)" .
  then show "exit_code r = 0" by simp
  from *(2) show "props_file s' = f" by simp
  from *(3) show "last (trace s') = Asked prompt response" .
next
  assume a: "prompt = ''Continue anyway? [y/N]: '' \<and> declines False response"
  then have "declined ''Continue anyway? [y/N]: '' False (Asked prompt response)"
    by (simp add: declined_def)
  note * = stops_run [OF main_stops_format assms(1) assms(2) this]
  from *(1) show "r = Inl (SystemExit 1)" .
  then show "exit_code r = 1" by simp
  from *(2) show "props_file s' = f" by simp
  from *(3) show "last (trace s') = Asked prompt response" .
next
  let ?E = "\<lambda>a. case a of
       Ran c p \<Rightarrow> True
     | Asked q l \<Rightarrow>
         q = ''Continue anyway? [y/N]: '' \<or>
         q = ''Bump type (major/minor/patch) [patch]: '' \<or>
         q = ''Continue with this version? [Y/n]: '' \<or>
         (\<exists>v. q = ''Commit message [Bump version to '' @ v @ '']: '') \<or>
         q = ''Release notes (optional): ''"
  let ?s = "\<lparr>world = w, props_file = f, inputs = ins, trace = []\<rparr>"
  from main_prompts [of sh linesep] obtain evs where
    "trace (snd (main sh linesep ?s)) = trace ?s @ evs" "list_all ?E evs"
    unfolding quiet_def by blast
  with assms(1) have la: "list_all ?E (trace s')" by (simp add: run_def)
  have "?E (Asked prompt response)"
    using la assms(2) unfolding list_all_iff by blast
  then show "prompt = ''Continue anyway? [y/N]: '' \<or>
      prompt = ''Bump type (major/minor/patch) [patch]: '' \<or>
      prompt = ''Continue with this version? [Y/n]: '' \<or>
      (\<exists>v. prompt = ''Commit message [Bump version to '' @ v @ '']: '') \<or>
      prompt = ''Release notes (optional): ''"
    by (simp only: event.case)
qed

theorem declined_prompt_exits_witness:
  "declines True ''no'' \<and>
   exit_code (fst (run (sample_shell []) [CHR 0x0A] () (Some ''name=x\<newline>version=1.2.3\<newline>'')
     ['''', ''no''])) = 0 \<and>
   props_file (snd (run (sample_shell []) [CHR 0x0A] () (Some ''name=x\<newline>version=1.2.3\<newline>'')
     ['''', ''no''])) = Some ''name=x\<newline>version=1.2.3\<newline>'' \<and>
   last (trace (snd (run (sample_shell []) [CHR 0x0A] () (Some ''name=x\<newline>version=1.2.3\<newline>'')
     ['''', ''no'']))) = Asked ''Continue with this version? [Y/n]: '' ''no''"
proof -
  have d: "declines True ''no''" by (simp add: declines_def isspace_def)
  have r: "run (sample_shell []) [CHR 0x0A] () (Some ''name=x\<newline>version=1.2.3\<newline>'') ['''', ''no''] =
    (Inl (SystemExit 0),
     \<lparr>world = (), props_file = Some ''name=x\<newline>version=1.2.3\<newline>'', inputs = [],
      trace =
        [Ran ''git rev-parse --git-dir'' (CompletedProcess 0 [] []),
         Ran ''git remote -v'' (CompletedProcess 0 [] []),
         Ran ''git remote add upstream https://github.com/acidtech/basicmicro_arduino''
           (CompletedProcess 0 [] []),
         Ran ''git remote add origin https://github.com/basicmicrosupport/basicmicro_arduino''
           (CompletedProcess 0 [] []),
         Asked ''Bump type (major/minor/patch) [patch]: '' [],
         Asked ''Continue with this version? [Y/n]: '' ''no'']\<rparr>)"
    by code_simp
  have m: "Asked ''Continue with this version? [Y/n]: '' ''no'' \<in> set (trace
     \<lparr>world = (), props_file = Some ''name=x\<newline>version=1.2.3\<newline>'', inputs = [],
      trace =
        [Ran ''git rev-parse --git-dir'' (CompletedProcess 0 [] []),
         Ran ''git remote -v'' (CompletedProcess 0 [] []),
         Ran ''git remote add upstream https://github.com/acidtech/basicmicro_arduino''
           (CompletedProcess 0 [] []),
         Ran ''git remote add origin https://github.com/basicmicrosupport/basicmicro_arduino''
           (CompletedProcess 0 [] []),
         Asked ''Bump type (major/minor/patch) [patch]: '' [],
         Asked ''Continue with this version? [Y/n]: '' ''no'']\<rparr>)"
    by simp
  from declined_prompt_exits [OF r m] d show ?thesis
    by (simp only: r fst_conv snd_conv simp_thms)
qed

text \<open>
  Claim C8 as stated fails at the other confirmation prompt. In this run
  \<^verbatim>\<open>library.properties\<close> is missing and the user answers \<^verbatim>\<open>n\<close> to \<^verbatim>\<open>Continue anyway?\<close>:
  the process ends with exit code 1, not 0.
\<close>

theorem declined_format_prompt_counterexample:
  "declines False ''n'' \<and>
   run (sample_shell []) [CHR 0x0A] () None [''n''] =
     (Inl (SystemExit 1),
      \<lparr>world = (), props_file = None, inputs = [],
       trace =
         [Ran ''git rev-parse --git-dir'' (CompletedProcess 0 [] []),
          Asked ''Continue anyway? [y/N]: '' ''n'']\<rparr>) \<and>
   exit_code (fst (run (sample_shell []) [CHR 0x0A] () None [''n''])) = 1"
  by code_simp

subsection \<open>The pushes of a run\<close>




subsection \<open>Bumps and runs that fail on the version\<close>

text \<open>
  Claim C5, as the code has it. \<open>bump_version\<close> reads one component as a number, the one
  it increments: the first for \<^verbatim>\<open>major\<close>, the second for \<^verbatim>\<open>minor\<close>, the third for any
  other kind, after the version has been padded to three components with \<^verbatim>\<open>0\<close>. It
  raises \<^verbatim>\<open>ValueError\<close> exactly when \<^verbatim>\<open>int()\<close> does not accept that component, or when
  the incremented number has more than 4300 digits. Otherwise it returns the version whose
  components are: those before the incremented one, unchanged and unread; the incremented
  number as \<^verbatim>\<open>str\<close> writes it; \<^verbatim>\<open>0\<close> for what is left of the first three; and the
  components after the third, unchanged. So a component that is no integer makes the bump
  fail only where it is the one to increment.

  Nothing in the script catches the \<^verbatim>\<open>ValueError\<close>: in every run in which the bump of
  the version in the file, with the kind that the user gave, raises it, the run ends with
  that exception (exit code 1); the question for the kind is the last thing the run did,
  and \<^verbatim>\<open>library.properties\<close> is as it was.
\<close>

theorem bump_version_fails:
  fixes v k :: string
  defines "ps \<equiv> split v (CHR ''.'') @ replicate (3 - length (split v (CHR ''.''))) ''0''"
    and "i \<equiv> (if k = ''major'' then 0 else if k = ''minor'' then 1 else 2 :: nat)"
  shows "(case py_int (ps ! i) of
            None \<Rightarrow> bump_version v k = Inl ValueError
          | Some n \<Rightarrow>
              if 10 ^ int_max_str_digits \<le> \<bar>n + 1\<bar> then bump_version v k = Inl ValueError
              else \<exists>t r. py_str (n + 1) = Some t \<and> bump_version v k = Inr r \<and>
                split r (CHR ''.'') = take i ps @ t # replicate (2 - i) ''0'' @ drop 3 ps) \<and>
         (run sh linesep w (Some disk) ins = (r', s') \<and>
          re_search_version (universal_newlines disk) = Some v \<and>
          Asked ''Bump type (major/minor/patch) [patch]: '' line \<in> set (trace s') \<and>
          k = (if strip line \<noteq> [] then strip line else ''patch'') \<and>
          bump_version v k = Inl ValueError \<longrightarrow>
            r' = Inl ValueError \<and> exit_code r' = 1 \<and> props_file s' = Some disk \<and>
            last (trace s') = Asked ''Bump type (major/minor/patch) [patch]: '' line)"
proof (intro conjI impI)
  show "case py_int (ps ! i) of
            None \<Rightarrow> bump_version v k = Inl ValueError
          | Some n \<Rightarrow>
              if 10 ^ int_max_str_digits \<le> \<bar>n + 1\<bar> then bump_version v k = Inl ValueError
              else \<exists>t r. py_str (n + 1) = Some t \<and> bump_version v k = Inr r \<and>
                split r (CHR ''.'') = take i ps @ t # replicate (2 - i) ''0'' @ drop 3 ps"
    unfolding ps_def i_def by (rule bump_version_outcome)
next
  assume a: "run sh linesep w (Some disk) ins = (r', s') \<and>
          re_search_version (universal_newlines disk) = Some v \<and>
          Asked ''Bump type (major/minor/patch) [patch]: '' line \<in> set (trace s') \<and>
          k = (if strip line \<noteq> [] then strip line else ''patch'') \<and>
          bump_version v k = Inl ValueError"
  then have run: "run sh linesep w (Some disk) ins = (r', s')"
    and v: "re_search_version (universal_newlines disk) = Some v"
    and asked: "Asked ''Bump type (major/minor/patch) [patch]: '' line \<in> set (trace s')"
    and k: "k = (if strip line \<noteq> [] then strip line else ''patch'')"
    and b: "bump_version v k = Inl ValueError"
    by blast+
  have fails: "bump_version v (if strip line \<noteq> [] then strip line else ''patch'') = Inl ValueError"
    by (subst k [symmetric]) (rule b)
  note * = bump_failure_aborts [OF run v asked fails]
  from *(1) show "r' = Inl ValueError" .
  then show "exit_code r' = 1" by simp
  from *(2) show "props_file s' = Some disk" .
  from *(3) show "last (trace s') = Asked ''Bump type (major/minor/patch) [patch]: '' line" .
qed

theorem bump_version_fails_witness:
  "bump_version ''1.2.x'' ''patch'' = Inl ValueError \<and>
   fst (run (sample_shell []) [CHR 0x0A] () (Some ''name=x\<newline>version=1.2.x\<newline>'') ['''']) =
     Inl ValueError \<and>
   exit_code (fst (run (sample_shell []) [CHR 0x0A] () (Some ''name=x\<newline>version=1.2.x\<newline>'')
     [''''])) = 1 \<and>
   props_file (snd (run (sample_shell []) [CHR 0x0A] () (Some ''name=x\<newline>version=1.2.x\<newline>'')
     [''''])) = Some ''name=x\<newline>version=1.2.x\<newline>''"
proof -
  let ?t = "\<lparr>world = (), props_file = Some ''name=x\<newline>version=1.2.x\<newline>'', inputs = [],
      trace =
        [Ran ''git rev-parse --git-dir'' (CompletedProcess 0 [] []),
         Ran ''git remote -v'' (CompletedProcess 0 [] []),
         Ran ''git remote add upstream https://github.com/acidtech/basicmicro_arduino''
           (CompletedProcess 0 [] []),
         Ran ''git remote add origin https://github.com/basicmicrosupport/basicmicro_arduino''
           (CompletedProcess 0 [] []),
         Asked ''Bump type (major/minor/patch) [patch]: '' []]\<rparr>"
  have r: "run (sample_shell []) [CHR 0x0A] () (Some ''name=x\<newline>version=1.2.x\<newline>'') [''''] =
      (Inl ValueError, ?t)"
    by code_simp
  have v: "re_search_version (universal_newlines ''name=x\<newline>version=1.2.x\<newline>'') = Some ''1.2.x''"
    by code_simp
  have m: "Asked ''Bump type (major/minor/patch) [patch]: '' [] \<in> set (trace ?t)" by simp
  have k: "''patch'' = (if strip [] \<noteq> [] then strip [] else ''patch'')"
    by (simp add: strip_def strip_with_def)
  have b: "bump_version ''1.2.x'' ''patch'' = Inl ValueError" by code_simp
  from bump_version_fails [where v = "''1.2.x''" and k = "''patch''" and sh = "sample_shell []"
      and linesep = "[CHR 0x0A]" and w = "()" and disk = "''name=x\<newline>version=1.2.x\<newline>''"
      and ins = "['''']" and r' = "Inl ValueError" and s' = ?t and line = "[]"]
    r v m k b
  show ?thesis by (simp only: r b fst_conv snd_conv simp_thms)
qed

text \<open>
  Claim C5 as stated fails on \<^verbatim>\<open>1.x.3\<close>: its second component is no integer, yet the
  patch bump and the major bump both return a version.
\<close>

theorem bump_version_unchecked_counterexample:
  "split ''1.x.3'' (CHR ''.'') = [''1'', ''x'', ''3''] \<and> py_int ''x'' = None \<and>
   bump_version ''1.x.3'' ''patch'' = Inr ''1.x.4'' \<and>
   bump_version ''1.x.3'' ''major'' = Inr ''2.0.0''"
  by code_simp

subsection \<open>The write and the run around it\<close>





end
